theory Spec2Isabelle
  imports Main
begin

section \<open>Tables of the blog (main.py, CONFIGURE TABLES)\<close>

text \<open>
  The three mapped classes of main.py, one record per row. Field names carry the table's
  initial because the three classes share the column name \<open>id\<close>. A foreign-key column
  is declared without \<open>nullable=False\<close>, so it is a \<open>nat option\<close> (\<open>None\<close> is NULL);
  the text columns are \<open>nullable=False\<close> and hold strings.
\<close>

record User =
  u_id :: nat
  u_email :: string
  u_password :: string
  u_name :: string

record BlogPost =
  p_id :: nat
  p_author_id :: "nat option"
  p_title :: string
  p_subtitle :: string
  p_date :: string
  p_body :: string
  p_img_url :: string

record Comment =
  c_id :: nat
  c_author_id :: "nat option"
  c_post_id :: "nat option"
  c_text :: string

section \<open>Forms\<close>

text \<open>
  forms.py is not part of the sources at hand. A handler only asks a form whether
  \<open>validate_on_submit()\<close> holds and then reads its fields, so each handler takes
  \<open>Some data\<close> when the request is a submission that validated and \<open>None\<close> otherwise
  (a GET, or a submission that the form rejected).
\<close>

record RegisterForm =
  rf_email :: string
  rf_password :: string
  rf_name :: string

record LoginForm =
  lf_email :: string
  lf_password :: string

record CreatePostForm =
  pf_title :: string
  pf_subtitle :: string
  pf_img_url :: string
  pf_body :: string

type_synonym CommentForm = string

section \<open>The state one request sees\<close>

text \<open>
  \<open>users\<close>, \<open>blog_posts\<close> and \<open>comments\<close> are the tables in row order; \<open>commits\<close>
  counts the calls of \<open>db.session.commit()\<close>; \<open>session_user_id\<close> and \<open>flashes\<close> are
  the two things the handlers keep in the client's session (the id stored by
  \<open>login_user\<close>, and the messages queued by \<open>flash\<close> with their category).
\<close>

record app =
  users :: "User list"
  blog_posts :: "BlogPost list"
  comments :: "Comment list"
  commits :: nat
  session_user_id :: "nat option"
  flashes :: "(string \<times> string) list"

datatype endpoint = EP_get_all_posts | EP_login | EP_show_post nat

datatype exn = AttributeError | UnmappedInstanceError | IntegrityError | OverflowError

text \<open>
  What a handler returns: \<open>render_template\<close> with the template and the keyword arguments
  it was given, \<open>redirect(url_for(...))\<close>, \<open>abort(code)\<close>, or an exception that leaves
  the handler.
\<close>

datatype response =
    Render_index "BlogPost list" bool
  | Render_register
  | Render_login
  | Render_post "BlogPost option" bool "Comment list"
  | Render_about bool
  | Render_contact bool
  | Render_make_post "(CreatePostForm \<times> string) option" bool
  | Redirect endpoint
  | Abort nat
  | Raise exn

subsection \<open>The store and the session\<close>

text \<open>
  A new row of an integer primary key gets one more than the largest key in the table
  (1 in an empty table).
\<close>

definition next_id :: "nat list \<Rightarrow> nat" where
  "next_id ids = Suc (fold max ids 0)"

definition commit :: "app \<Rightarrow> app" where
  "commit a = a\<lparr>commits := Suc (commits a)\<rparr>"

definition flash :: "string \<Rightarrow> string \<Rightarrow> app \<Rightarrow> app" where
  "flash message category a = a\<lparr>flashes := flashes a @ [(message, category)]\<rparr>"

definition load_user :: "app \<Rightarrow> nat \<Rightarrow> User option" where
  "load_user a user_id = find (\<lambda>u. u_id u = user_id) (users a)"

text \<open>
  \<open>current_user\<close>: the user that \<open>load_user\<close> finds for the id kept in the session, and
  the anonymous user (\<open>None\<close>) when the session has no id or the id finds no row.
\<close>

definition current_user :: "app \<Rightarrow> User option" where
  "current_user a =
     (case session_user_id a of None \<Rightarrow> None | Some user_id \<Rightarrow> load_user a user_id)"

definition is_authenticated :: "app \<Rightarrow> bool" where
  "is_authenticated a = (current_user a \<noteq> None)"

definition login_user :: "User \<Rightarrow> app \<Rightarrow> app" where
  "login_user u a = a\<lparr>session_user_id := Some (u_id u)\<rparr>"

definition logout_user :: "app \<Rightarrow> app" where
  "logout_user a = a\<lparr>session_user_id := None\<rparr>"

subsection \<open>Password hashes\<close>

text \<open>
  The digest itself (PBKDF2) belongs to the hashing library and is a parameter
  \<open>H method salt password\<close>; so is the random salt that \<open>generate_password_hash\<close>
  draws. What the library does around the digest is written out: the stored string is
  \<open>method$salt$digest\<close>, and the check splits the stored string at its first two
  dollar signs and compares digests.
\<close>

type_synonym digest = "string \<Rightarrow> string \<Rightarrow> string \<Rightarrow> string"

definition generate_password_hash :: "digest \<Rightarrow> string \<Rightarrow> string \<Rightarrow> string \<Rightarrow> string" where
  "generate_password_hash H password method salt =
     method @ ''$'' @ salt @ ''$'' @ H method salt password"

definition check_password_hash :: "digest \<Rightarrow> string \<Rightarrow> string \<Rightarrow> bool" where
  "check_password_hash H pwhash password =
     (if length (filter (\<lambda>c. c = CHR ''$'') pwhash) < 2 then False
      else
        (let method = takeWhile (\<lambda>c. c \<noteq> CHR ''$'') pwhash;
             rest = drop 1 (dropWhile (\<lambda>c. c \<noteq> CHR ''$'') pwhash);
             salt = takeWhile (\<lambda>c. c \<noteq> CHR ''$'') rest;
             hashval = drop 1 (dropWhile (\<lambda>c. c \<noteq> CHR ''$'') rest)
         in H method salt password = hashval))"

subsection \<open>Dates\<close>

record date =
  year :: nat
  month :: nat
  day :: nat

definition month_name :: "nat \<Rightarrow> string" where
  "month_name m =
     [''January'', ''February'', ''March'', ''April'', ''May'', ''June'', ''July'',
      ''August'', ''September'', ''October'', ''November'', ''December''] ! (m - 1)"

definition digit :: "nat \<Rightarrow> char" where
  "digit d = ''0123456789'' ! d"

fun decimal :: "nat \<Rightarrow> string" where
  "decimal n = (if n < 10 then [digit n] else decimal (n div 10) @ [digit (n mod 10)])"

text \<open>\<open>strftime("%B %d, %Y")\<close>: the month's name, the day on two digits, the year.\<close>

definition strftime_B_d_Y :: "date \<Rightarrow> string" where
  "strftime_B_d_Y d =
     month_name (month d) @ '' '' @
     (if day d < 10 then ''0'' @ decimal (day d) else decimal (day d)) @ '', '' @
     decimal (year d)"

section \<open>Handlers\<close>

definition admin_only :: "(app \<Rightarrow> response \<times> app) \<Rightarrow> app \<Rightarrow> response \<times> app" where
  "admin_only function a =
     (if is_authenticated a \<and> map_option u_id (current_user a) = Some 1 then function a
      else (Abort 403, a))"

definition get_all_posts :: "app \<Rightarrow> response \<times> app" where
  "get_all_posts a = (Render_index (blog_posts a) (is_authenticated a), a)"

definition register :: "digest \<Rightarrow> RegisterForm option \<Rightarrow> string \<Rightarrow> app \<Rightarrow> response \<times> app" where
  "register H form salt a =
     (case form of
        None \<Rightarrow> (Render_register, a)
      | Some f \<Rightarrow>
          (case find (\<lambda>u. u_email u = rf_email f) (users a) of
             None \<Rightarrow>
               (let hashed_password =
                      generate_password_hash H (rf_password f) ''pbkdf2:sha256:5'' salt;
                    new_user = \<lparr>u_id = next_id (map u_id (users a)), u_email = rf_email f,
                                u_password = hashed_password, u_name = rf_name f\<rparr>;
                    a1 = commit (a\<lparr>users := users a @ [new_user]\<rparr>)
                in (Redirect EP_get_all_posts, login_user new_user a1))
           | Some user \<Rightarrow>
               (Redirect EP_login,
                flash (''You'' @ [CHR 0x27] @ ''ve already signed up with that email. Login instead'')
                  ''message'' a)))"

definition login :: "digest \<Rightarrow> LoginForm option \<Rightarrow> app \<Rightarrow> response \<times> app" where
  "login H form a =
     (case form of
        None \<Rightarrow> (Render_login, a)
      | Some f \<Rightarrow>
          (case find (\<lambda>u. u_email u = lf_email f) (users a) of
             Some user \<Rightarrow>
               (if check_password_hash H (u_password user) (lf_password f)
                then (Redirect EP_get_all_posts, login_user user a)
                else (Render_login, flash ''Invalid password.'' ''error'' a))
           | None \<Rightarrow>
               (Render_login,
                flash ''This email does not exist. Please try again.'' ''error'' a)))"

text \<open>\<open>login_required\<close> without a login view answers 401 to an anonymous session.\<close>

definition logout :: "app \<Rightarrow> response \<times> app" where
  "logout a =
     (if is_authenticated a then (Redirect EP_get_all_posts, logout_user a)
      else (Abort 401, a))"

text \<open>
  \<open>BlogPost.query.get(post_id)\<close>. The route converter \<open><int:post_id>\<close> accepts every
  decimal number, while the table keeps its integer key on 64 signed bits: a row has an
  id below \<open>2^63\<close>, and the lookup of an id of \<open>2^63\<close> or more raises OverflowError when
  the id is bound as the parameter of the query. So the lookup gives the row with the id
  when there is one, and otherwise raises for an id of \<open>2^63\<close> or more and gives \<open>None\<close>
  for a smaller one.
\<close>

definition BlogPost_query_get :: "BlogPost list \<Rightarrow> nat \<Rightarrow> exn + BlogPost option" where
  "BlogPost_query_get rows ident =
     (case find (\<lambda>p. p_id p = ident) rows of
        Some p \<Rightarrow> Inr (Some p)
      | None \<Rightarrow> if 2 ^ 63 \<le> ident then Inl OverflowError else Inr None)"

text \<open>
  The lookup is the first statement of \<open>show_post\<close>, so its exception leaves the handler
  on GET and POST alike. Reading \<open>.id\<close> of a missing post (\<open>None\<close>) in the comment branch
  raises AttributeError.
\<close>

definition show_post :: "nat \<Rightarrow> CommentForm option \<Rightarrow> app \<Rightarrow> response \<times> app" where
  "show_post post_id form a =
     (case BlogPost_query_get (blog_posts a) post_id of
        Inl e \<Rightarrow> (Raise e, a)
      | Inr requested_post \<Rightarrow>
          (let logged_in = is_authenticated a
           in case form of
                None \<Rightarrow> (Render_post requested_post logged_in (comments a), a)
              | Some comment \<Rightarrow>
                  (case current_user a of
                     Some u \<Rightarrow>
                       (case requested_post of
                          None \<Rightarrow> (Raise AttributeError, a)
                        | Some p \<Rightarrow>
                            (let new_comment =
                                   \<lparr>c_id = next_id (map c_id (comments a)),
                                    c_author_id = Some (u_id u), c_post_id = Some (p_id p),
                                    c_text = comment\<rparr>;
                                 a1 = commit (a\<lparr>comments := comments a @ [new_comment]\<rparr>)
                             in (Render_post requested_post logged_in (comments a1), a1)))
                   | None \<Rightarrow>
                       (Redirect EP_login,
                        flash ''You need to login or register to comment.'' ''message'' a))))"

definition about :: "app \<Rightarrow> response \<times> app" where
  "about a = (Render_about (is_authenticated a), a)"

definition contact :: "app \<Rightarrow> response \<times> app" where
  "contact a = (Render_contact (is_authenticated a), a)"

text \<open>
  The functions under \<open>@admin_only\<close> are the \<open>_view\<close> definitions; the names the routes
  are bound to are the wrapped ones. A commit that would store a second post with a
  title already in the table violates \<open>unique=True\<close> and raises IntegrityError; the
  tables stay as they were.
\<close>

definition add_new_post_view :: "CreatePostForm option \<Rightarrow> date \<Rightarrow> app \<Rightarrow> response \<times> app" where
  "add_new_post_view form today a =
     (let logged_in = is_authenticated a
      in case form of
           Some f \<Rightarrow>
             (let new_post =
                    \<lparr>p_id = next_id (map p_id (blog_posts a)),
                     p_author_id = map_option u_id (current_user a),
                     p_title = pf_title f, p_subtitle = pf_subtitle f,
                     p_date = strftime_B_d_Y today,
                     p_body = pf_body f, p_img_url = pf_img_url f\<rparr>
              in if pf_title f \<in> set (map p_title (blog_posts a))
                 then (Raise IntegrityError, commit a)
                 else (Redirect EP_get_all_posts,
                       commit (a\<lparr>blog_posts := blog_posts a @ [new_post]\<rparr>)))
         | None \<Rightarrow> (Render_make_post None logged_in, a))"

definition add_new_post :: "CreatePostForm option \<Rightarrow> date \<Rightarrow> app \<Rightarrow> response \<times> app" where
  "add_new_post form today = admin_only (add_new_post_view form today)"

text \<open>
  \<open>edit_post\<close> looks the post up first (OverflowError as in \<open>show_post\<close>); reading
  \<open>post.title\<close> of a missing post, or \<open>post.author.name\<close> of a post without author,
  raises AttributeError.
\<close>

definition edit_post_view :: "nat \<Rightarrow> CreatePostForm option \<Rightarrow> app \<Rightarrow> response \<times> app" where
  "edit_post_view post_id form a =
     (let logged_in = is_authenticated a
      in case BlogPost_query_get (blog_posts a) post_id of
           Inl e \<Rightarrow> (Raise e, a)
         | Inr None \<Rightarrow> (Raise AttributeError, a)
         | Inr (Some post) \<Rightarrow>
             (case (case p_author_id post of None \<Rightarrow> None | Some i \<Rightarrow> load_user a i) of
                None \<Rightarrow> (Raise AttributeError, a)
              | Some author \<Rightarrow>
                  (let edit_form =
                         (\<lparr>pf_title = p_title post, pf_subtitle = p_subtitle post,
                           pf_img_url = p_img_url post, pf_body = p_body post\<rparr>,
                          u_name author)
                   in case form of
                        Some f \<Rightarrow>
                          (if \<exists>q \<in> set (blog_posts a). p_id q \<noteq> post_id \<and> p_title q = pf_title f
                           then (Raise IntegrityError, commit a)
                           else (Redirect (EP_show_post (p_id post)),
                                 commit (a\<lparr>blog_posts :=
                                   map (\<lambda>q. if p_id q = post_id
                                             then q\<lparr>p_title := pf_title f,
                                                    p_subtitle := pf_subtitle f,
                                                    p_img_url := pf_img_url f,
                                                    p_body := pf_body f\<rparr>
                                             else q) (blog_posts a)\<rparr>)))
                      | None \<Rightarrow> (Render_make_post (Some edit_form) logged_in, a))))"

definition edit_post :: "nat \<Rightarrow> CreatePostForm option \<Rightarrow> app \<Rightarrow> response \<times> app" where
  "edit_post post_id form = admin_only (edit_post_view post_id form)"

text \<open>
  The lookup comes first and may raise OverflowError, as in \<open>show_post\<close>;
  \<open>db.session.delete(None)\<close> raises UnmappedInstanceError. The relationship
  \<open>BlogPost.comments\<close> has no delete cascade, so deleting a post leaves its comments in
  their table and the mapper sets their \<open>post_id\<close> to NULL.
\<close>

definition delete_post_view :: "nat \<Rightarrow> app \<Rightarrow> response \<times> app" where
  "delete_post_view post_id a =
     (case BlogPost_query_get (blog_posts a) post_id of
        Inl e \<Rightarrow> (Raise e, a)
      | Inr None \<Rightarrow> (Raise UnmappedInstanceError, a)
      | Inr (Some post_to_delete) \<Rightarrow>
          (Redirect EP_get_all_posts,
           commit (a\<lparr>blog_posts := filter (\<lambda>q. p_id q \<noteq> post_id) (blog_posts a),
                     comments := map (\<lambda>c. if c_post_id c = Some post_id
                                           then c\<lparr>c_post_id := None\<rparr> else c)
                                     (comments a)\<rparr>)))"

definition delete_post :: "nat \<Rightarrow> app \<Rightarrow> response \<times> app" where
  "delete_post post_id = admin_only (delete_post_view post_id)"

section \<open>Requests and the server\<close>

text \<open>
  One constructor per route. A request carries what the handler reads from outside the
  store: whether its form validated and with which fields, the salt drawn for a new
  password hash, and today's date.
\<close>

datatype request =
    Req_get_all_posts
  | Req_register "RegisterForm option" string
  | Req_login "LoginForm option"
  | Req_logout
  | Req_show_post nat "CommentForm option"
  | Req_about
  | Req_contact
  | Req_add_new_post "CreatePostForm option" date
  | Req_edit_post nat "CreatePostForm option"
  | Req_delete_post nat

definition dispatch :: "digest \<Rightarrow> request \<Rightarrow> app \<Rightarrow> response \<times> app" where
  "dispatch H req a =
     (case req of
        Req_get_all_posts \<Rightarrow> get_all_posts a
      | Req_register form salt \<Rightarrow> register H form salt a
      | Req_login form \<Rightarrow> login H form a
      | Req_logout \<Rightarrow> logout a
      | Req_show_post post_id form \<Rightarrow> show_post post_id form a
      | Req_about \<Rightarrow> about a
      | Req_contact \<Rightarrow> contact a
      | Req_add_new_post form today \<Rightarrow> add_new_post form today a
      | Req_edit_post post_id form \<Rightarrow> edit_post post_id form a
      | Req_delete_post post_id \<Rightarrow> delete_post post_id a)"

text \<open>
  The server holds the one store and a session per client (clients are numbered). A
  request of client \<open>c\<close> runs its handler on the store and on \<open>c\<close>'s session, and
  writes both back.
\<close>

record server =
  srv_users :: "User list"
  srv_blog_posts :: "BlogPost list"
  srv_comments :: "Comment list"
  srv_commits :: nat
  srv_sessions :: "nat \<Rightarrow> nat option \<times> (string \<times> string) list"

definition request_context :: "server \<Rightarrow> nat \<Rightarrow> app" where
  "request_context srv c =
     \<lparr>users = srv_users srv, blog_posts = srv_blog_posts srv, comments = srv_comments srv,
      commits = srv_commits srv, session_user_id = fst (srv_sessions srv c),
      flashes = snd (srv_sessions srv c)\<rparr>"

definition serve :: "digest \<Rightarrow> nat \<Rightarrow> request \<Rightarrow> server \<Rightarrow> response \<times> server" where
  "serve H c req srv =
     (let (r, a) = dispatch H req (request_context srv c)
      in (r, \<lparr>srv_users = users a, srv_blog_posts = blog_posts a,
              srv_comments = comments a, srv_commits = commits a,
              srv_sessions = (srv_sessions srv)(c := (session_user_id a, flashes a))\<rparr>))"

definition init_server :: server where
  "init_server =
     \<lparr>srv_users = [], srv_blog_posts = [], srv_comments = [], srv_commits = 0,
      srv_sessions = (\<lambda>c. (None, []))\<rparr>"

inductive reachable :: "digest \<Rightarrow> server \<Rightarrow> bool" for H :: digest where
  start: "reachable H init_server"
| step: "reachable H srv \<Longrightarrow> reachable H (snd (serve H c req srv))"

fun run :: "digest \<Rightarrow> (nat \<times> request) list \<Rightarrow> server \<Rightarrow> server" where
  "run H [] srv = srv"
| "run H ((c, req) # rest) srv = run H rest (snd (serve H c req srv))"

section \<open>Vocabulary of the properties\<close>

text \<open>
  The condition the authorization gate tests: the session is authenticated and its user
  has the identifier 1.
\<close>

definition privileged :: "app \<Rightarrow> bool" where
  "privileged a = (is_authenticated a \<and> map_option u_id (current_user a) = Some 1)"

text \<open>
  Concrete values on which the properties below are evaluated: a stand-in digest (the
  real one is a parameter), the empty store with an anonymous session, two registration
  forms, a post form and a date.
\<close>

definition example_digest :: digest where
  "example_digest method salt password = method @ salt @ password"

definition empty_app :: app where
  "empty_app = \<lparr>users = [], blog_posts = [], comments = [], commits = 0,
                session_user_id = None, flashes = []\<rparr>"

definition alice_form :: RegisterForm where
  "alice_form = \<lparr>rf_email = ''a@x.com'', rf_password = ''pw'', rf_name = ''Alice''\<rparr>"

definition bob_form :: RegisterForm where
  "bob_form = \<lparr>rf_email = ''b@x.com'', rf_password = ''pw2'', rf_name = ''Bob''\<rparr>"

definition hello_form :: CreatePostForm where
  "hello_form = \<lparr>pf_title = ''Hello'', pf_subtitle = ''Sub'', pf_img_url = ''http://img'',
                 pf_body = ''Body''\<rparr>"

definition a_day :: date where
  "a_day = \<lparr>year = 2026, month = 11, day = 4\<rparr>"

text \<open>
  Two states built by the handlers themselves: Alice registers on the empty store (she
  gets the identifier 1 and is logged in); then she logs out and Bob registers.
\<close>

definition app_alice :: app where
  "app_alice = snd (register example_digest (Some alice_form) ''saltsalt'' empty_app)"

definition app_bob :: app where
  "app_bob = snd (register example_digest (Some bob_form) ''pepper12'' (snd (logout app_alice)))"

text \<open>Alice logged out again: her row is in the table, the session is anonymous.\<close>

definition app_anon :: app where
  "app_anon = snd (logout app_alice)"

text \<open>
  States with posts: Alice publishes the post Hello; then she comments on it, publishes a
  second post, News, and comments on that one too.
\<close>

definition news_form :: CreatePostForm where
  "news_form = \<lparr>pf_title = ''News'', pf_subtitle = ''Sub'', pf_img_url = ''http://img2'',
                pf_body = ''Text''\<rparr>"

definition app_hello :: app where
  "app_hello = snd (add_new_post (Some hello_form) a_day app_alice)"

definition app_two :: app where
  "app_two = snd (show_post 2 (Some ''Second!'')
               (snd (add_new_post (Some news_form) a_day
                 (snd (show_post 1 (Some ''Nice!'') app_hello)))))"

text \<open>
  The invariant as the specification words it: every comment has an author among the
  users and a parent among the posts, every post has an author among the users, and user
  identifiers, post identifiers, emails and titles are each distinct (so that the user or
  post referred to is exactly one).
\<close>

definition referential_invariant :: "User list \<Rightarrow> BlogPost list \<Rightarrow> Comment list \<Rightarrow> bool" where
  "referential_invariant us ps cs =
     ((\<forall>c \<in> set cs. c_author_id c \<in> Some ` u_id ` set us \<and>
                     c_post_id c \<in> Some ` p_id ` set ps) \<and>
      (\<forall>p \<in> set ps. p_author_id p \<in> Some ` u_id ` set us) \<and>
      distinct (map u_id us) \<and> distinct (map p_id ps) \<and>
      distinct (map u_email us) \<and> distinct (map p_title ps))"

text \<open>
  The invariant the handlers keep: the same, but a comment's parent may also be NULL.
\<close>

definition store_invariant :: "User list \<Rightarrow> BlogPost list \<Rightarrow> Comment list \<Rightarrow> bool" where
  "store_invariant us ps cs =
     ((\<forall>c \<in> set cs. c_author_id c \<in> Some ` u_id ` set us \<and>
                     (c_post_id c = None \<or> c_post_id c \<in> Some ` p_id ` set ps)) \<and>
      (\<forall>p \<in> set ps. p_author_id p \<in> Some ` u_id ` set us) \<and>
      distinct (map u_id us) \<and> distinct (map p_id ps) \<and>
      distinct (map u_email us) \<and> distinct (map p_title ps))"

text \<open>
  A session of one client: register, publish a post, comment on it, delete the post.
\<close>

definition delete_trace :: "(nat \<times> request) list" where
  "delete_trace =
     [(0, Req_register (Some alice_form) ''saltsalt''),
      (0, Req_add_new_post (Some hello_form) a_day),
      (0, Req_show_post 1 (Some ''Nice!'')),
      (0, Req_delete_post 1)]"

section \<open>Fresh identifiers and lookups\<close>

lemma le_fold_max: "k \<le> fold max ids (k::nat)"
  by (induction ids arbitrary: k) (auto intro: order_trans[OF max.cobounded2])

lemma mem_le_fold_max: "x \<in> set ids \<Longrightarrow> x \<le> fold max ids (k::nat)"
proof (induction ids arbitrary: k)
  case Nil
  then show ?case by simp
next
  case (Cons y ys)
  show ?case
  proof (cases "x = y")
    case True
    have "y \<le> max y k" by simp
    also have "\<dots> \<le> fold max ys (max y k)" by (rule le_fold_max)
    finally show ?thesis using True by simp
  next
    case False
    with Cons show ?thesis by simp
  qed
qed

lemma next_id_fresh: "next_id ids \<notin> set ids"
  using mem_le_fold_max[of "next_id ids" ids 0] by (auto simp: next_id_def)

lemma find_snoc_fresh:
  "\<forall>x \<in> set xs. \<not> P x \<Longrightarrow> P y \<Longrightarrow> find P (xs @ [y]) = Some y"
  by (induction xs) auto

lemma find_in_set: "find P xs = Some x \<Longrightarrow> x \<in> set xs \<and> P x"
  by (induction xs) (auto split: if_splits)

section \<open>The post lookup\<close>

lemma BlogPost_query_get_eq:
  "BlogPost_query_get rows ident =
     (if find (\<lambda>p. p_id p = ident) rows = None \<and> 2 ^ 63 \<le> ident then Inl OverflowError
      else Inr (find (\<lambda>p. p_id p = ident) rows))"
  by (simp add: BlogPost_query_get_def split: option.splits)

text \<open>
  Each handler that starts with the lookup, written by cases: the lookup overflows and
  the exception leaves the handler, or the handler goes on with the row it found (or
  with \<open>None\<close>).
\<close>

lemma show_post_unfold:
  "show_post post_id form a =
     (if find (\<lambda>p. p_id p = post_id) (blog_posts a) = None \<and> 2 ^ 63 \<le> post_id
      then (Raise OverflowError, a)
      else
        (let requested_post = find (\<lambda>p. p_id p = post_id) (blog_posts a);
             logged_in = is_authenticated a
         in case form of
              None \<Rightarrow> (Render_post requested_post logged_in (comments a), a)
            | Some comment \<Rightarrow>
                (case current_user a of
                   Some u \<Rightarrow>
                     (case requested_post of
                        None \<Rightarrow> (Raise AttributeError, a)
                      | Some p \<Rightarrow>
                          (let new_comment =
                                 \<lparr>c_id = next_id (map c_id (comments a)),
                                  c_author_id = Some (u_id u), c_post_id = Some (p_id p),
                                  c_text = comment\<rparr>;
                               a1 = commit (a\<lparr>comments := comments a @ [new_comment]\<rparr>)
                           in (Render_post requested_post logged_in (comments a1), a1)))
                 | None \<Rightarrow>
                     (Redirect EP_login,
                      flash ''You need to login or register to comment.'' ''message'' a))))"
  unfolding show_post_def BlogPost_query_get_eq by (simp add: Let_def)

lemma edit_post_view_unfold:
  "edit_post_view post_id form a =
     (if find (\<lambda>p. p_id p = post_id) (blog_posts a) = None \<and> 2 ^ 63 \<le> post_id
      then (Raise OverflowError, a)
      else
        (let logged_in = is_authenticated a
         in case find (\<lambda>p. p_id p = post_id) (blog_posts a) of
              None \<Rightarrow> (Raise AttributeError, a)
            | Some post \<Rightarrow>
                (case (case p_author_id post of None \<Rightarrow> None | Some i \<Rightarrow> load_user a i) of
                   None \<Rightarrow> (Raise AttributeError, a)
                 | Some author \<Rightarrow>
                     (let edit_form =
                            (\<lparr>pf_title = p_title post, pf_subtitle = p_subtitle post,
                              pf_img_url = p_img_url post, pf_body = p_body post\<rparr>,
                             u_name author)
                      in case form of
                           Some f \<Rightarrow>
                             (if \<exists>q \<in> set (blog_posts a). p_id q \<noteq> post_id \<and> p_title q = pf_title f
                              then (Raise IntegrityError, commit a)
                              else (Redirect (EP_show_post (p_id post)),
                                    commit (a\<lparr>blog_posts :=
                                      map (\<lambda>q. if p_id q = post_id
                                                then q\<lparr>p_title := pf_title f,
                                                       p_subtitle := pf_subtitle f,
                                                       p_img_url := pf_img_url f,
                                                       p_body := pf_body f\<rparr>
                                                else q) (blog_posts a)\<rparr>)))
                         | None \<Rightarrow> (Render_make_post (Some edit_form) logged_in, a)))))"
  unfolding edit_post_view_def BlogPost_query_get_eq by (simp add: Let_def)

lemma delete_post_view_unfold:
  "delete_post_view post_id a =
     (if find (\<lambda>p. p_id p = post_id) (blog_posts a) = None \<and> 2 ^ 63 \<le> post_id
      then (Raise OverflowError, a)
      else
        (case find (\<lambda>p. p_id p = post_id) (blog_posts a) of
           None \<Rightarrow> (Raise UnmappedInstanceError, a)
         | Some post_to_delete \<Rightarrow>
             (Redirect EP_get_all_posts,
              commit (a\<lparr>blog_posts := filter (\<lambda>q. p_id q \<noteq> post_id) (blog_posts a),
                        comments := map (\<lambda>c. if c_post_id c = Some post_id
                                              then c\<lparr>c_post_id := None\<rparr> else c)
                                        (comments a)\<rparr>))))"
  unfolding delete_post_view_def BlogPost_query_get_eq by simp

section \<open>The example states, evaluated\<close>

lemmas example_defs = app_alice_def app_bob_def empty_app_def alice_form_def bob_form_def
  hello_form_def a_day_def example_digest_def

lemmas session_defs = is_authenticated_def current_user_def load_user_def login_user_def
  logout_user_def commit_def flash_def next_id_def generate_password_hash_def

lemma app_alice_eq:
  "app_alice = \<lparr>users = [\<lparr>u_id = 1, u_email = ''a@x.com'',
        u_password = ''pbkdf2:sha256:5$saltsalt$pbkdf2:sha256:5saltsaltpw'', u_name = ''Alice''\<rparr>],
      blog_posts = [], comments = [], commits = 1, session_user_id = Some 1, flashes = []\<rparr>"
  by (simp add: example_defs register_def session_defs Let_def)

lemma app_bob_eq:
  "app_bob = \<lparr>users = [\<lparr>u_id = 1, u_email = ''a@x.com'',
        u_password = ''pbkdf2:sha256:5$saltsalt$pbkdf2:sha256:5saltsaltpw'', u_name = ''Alice''\<rparr>,
       \<lparr>u_id = 2, u_email = ''b@x.com'',
        u_password = ''pbkdf2:sha256:5$pepper12$pbkdf2:sha256:5pepper12pw2'', u_name = ''Bob''\<rparr>],
      blog_posts = [], comments = [], commits = 2, session_user_id = Some 2, flashes = []\<rparr>"
  unfolding app_bob_def app_alice_eq
  by (simp add: example_defs register_def logout_def session_defs Let_def)

lemma app_anon_eq:
  "app_anon = \<lparr>users = [\<lparr>u_id = 1, u_email = ''a@x.com'',
        u_password = ''pbkdf2:sha256:5$saltsalt$pbkdf2:sha256:5saltsaltpw'', u_name = ''Alice''\<rparr>],
      blog_posts = [], comments = [], commits = 1, session_user_id = None, flashes = []\<rparr>"
  by (simp add: app_anon_def app_alice_eq logout_def session_defs)

section \<open>The authorization gate\<close>

lemma view_not_forbidden:
  "fst (add_new_post_view form today a) \<noteq> Abort 403"
  "fst (edit_post_view post_id form a) \<noteq> Abort 403"
  "fst (delete_post_view post_id a) \<noteq> Abort 403"
  by (auto simp: add_new_post_view_def edit_post_view_unfold delete_post_view_unfold Let_def
      split: option.splits)

text \<open>
  C1. The three admin-gated operations (post create, post edit, post delete) run their
  handler exactly when the session is authenticated and its user has the privileged
  identifier 1; every other session, anonymous ones included, gets the bare answer 403
  and nothing in the store or the session changes. The handlers themselves never answer
  403, so that answer comes from the gate alone. The privileged identifier is the one the
  first registration in an empty user table receives.
\<close>

theorem admin_only_gate:
  "(privileged a \<longrightarrow>
      add_new_post form today a = add_new_post_view form today a \<and>
      edit_post post_id form a = edit_post_view post_id form a \<and>
      delete_post post_id a = delete_post_view post_id a) \<and>
   (\<not> privileged a \<longrightarrow>
      add_new_post form today a = (Abort 403, a) \<and>
      edit_post post_id form a = (Abort 403, a) \<and>
      delete_post post_id a = (Abort 403, a)) \<and>
   fst (add_new_post_view form today a) \<noteq> Abort 403 \<and>
   fst (edit_post_view post_id form a) \<noteq> Abort 403 \<and>
   fst (delete_post_view post_id a) \<noteq> Abort 403 \<and>
   (users a = [] \<longrightarrow>
      fst (register H (Some f) salt a) = Redirect EP_get_all_posts \<and>
      map u_id (users (snd (register H (Some f) salt a))) = [1] \<and>
      privileged (snd (register H (Some f) salt a)))"
proof -
  have gate: "privileged a \<longrightarrow>
      add_new_post form today a = add_new_post_view form today a \<and>
      edit_post post_id form a = edit_post_view post_id form a \<and>
      delete_post post_id a = delete_post_view post_id a"
    by (simp add: privileged_def add_new_post_def edit_post_def delete_post_def admin_only_def)
  have forbid: "\<not> privileged a \<longrightarrow>
      add_new_post form today a = (Abort 403, a) \<and>
      edit_post post_id form a = (Abort 403, a) \<and>
      delete_post post_id a = (Abort 403, a)"
    by (auto simp: privileged_def add_new_post_def edit_post_def delete_post_def admin_only_def)
  have first: "users a = [] \<longrightarrow>
      fst (register H (Some f) salt a) = Redirect EP_get_all_posts \<and>
      map u_id (users (snd (register H (Some f) salt a))) = [1] \<and>
      privileged (snd (register H (Some f) salt a))"
    by (simp add: register_def Let_def next_id_def login_user_def commit_def privileged_def
        is_authenticated_def current_user_def load_user_def)
  from gate forbid first view_not_forbidden show ?thesis
    by blast
qed

theorem admin_only_gate_witness:
  "privileged app_alice \<and>
   delete_post 7 app_alice = delete_post_view 7 app_alice \<and>
   \<not> privileged app_bob \<and>
   edit_post 1 None app_bob = (Abort 403, app_bob) \<and>
   \<not> privileged empty_app \<and>
   add_new_post (Some hello_form) a_day empty_app = (Abort 403, empty_app) \<and>
   users empty_app = [] \<and>
   map u_id (users (snd (register example_digest (Some alice_form) ''saltsalt'' empty_app))) = [1]"
proof -
  have p: "privileged app_alice"
    by (simp add: app_alice_eq privileged_def session_defs)
  have q: "\<not> privileged app_bob"
    by (simp add: app_bob_eq privileged_def session_defs)
  have r: "\<not> privileged empty_app"
    by (simp add: empty_app_def privileged_def session_defs)
  have e: "users empty_app = []"
    by (simp add: empty_app_def)
  from p q r e
    admin_only_gate[of app_alice None a_day 7 example_digest alice_form "''saltsalt''"]
    admin_only_gate[of app_bob None a_day 1 example_digest alice_form "''saltsalt''"]
    admin_only_gate[of empty_app "Some hello_form" a_day 1 example_digest alice_form "''saltsalt''"]
  show ?thesis by simp
qed

section \<open>Registration\<close>

lemma takeWhile_sep: "c \<notin> set xs \<Longrightarrow> takeWhile (\<lambda>x. x \<noteq> c) (xs @ c # ys) = xs"
  by (induction xs) auto

lemma dropWhile_sep: "c \<notin> set xs \<Longrightarrow> dropWhile (\<lambda>x. x \<noteq> c) (xs @ c # ys) = c # ys"
  by (induction xs) auto

lemma split_stored_hash:
  assumes "CHR ''$'' \<notin> set method" "CHR ''$'' \<notin> set salt"
  shows "takeWhile (\<lambda>c. c \<noteq> CHR ''$'') (method @ ''$'' @ salt @ ''$'' @ h) = method"
    and "drop 1 (dropWhile (\<lambda>c. c \<noteq> CHR ''$'') (method @ ''$'' @ salt @ ''$'' @ h))
           = salt @ ''$'' @ h"
    and "takeWhile (\<lambda>c. c \<noteq> CHR ''$'') (salt @ ''$'' @ h) = salt"
    and "drop 1 (dropWhile (\<lambda>c. c \<noteq> CHR ''$'') (salt @ ''$'' @ h)) = h"
  using assms by (simp_all add: takeWhile_sep dropWhile_sep)

lemma check_generated_hash:
  assumes "CHR ''$'' \<notin> set method" "CHR ''$'' \<notin> set salt"
  shows "check_password_hash H (generate_password_hash H password method salt) password"
proof -
  have two: "\<not> length (filter (\<lambda>c. c = CHR ''$'') (method @ ''$'' @ salt @ ''$'' @ H method salt password)) < 2"
    by simp
  show ?thesis
    unfolding check_password_hash_def generate_password_hash_def
    using two split_stored_hash[OF assms] by (simp add: Let_def)
qed

text \<open>
  C2. A validated registration whose email is in no row of the user table stores exactly
  one new row, with the submitted email and name, a fresh identifier, and as password the
  string \<open>pbkdf2:sha256:5$salt$digest\<close> (the salted digest of the submitted password,
  which the password check accepts), and logs the session in as that new user. When the
  email is already in the table, the answer is a redirect to the login page and the state
  is left as it was but for one flashed message, which reads: You've already signed up
  with that email. Login instead. So no second user is stored.
\<close>

theorem register_creates_one_user:
  "(find (\<lambda>u. u_email u = rf_email f) (users a) = None \<longrightarrow>
      (\<exists>new_user a'.
         register H (Some f) salt a = (Redirect EP_get_all_posts, a') \<and>
         users a' = users a @ [new_user] \<and>
         u_email new_user = rf_email f \<and> u_name new_user = rf_name f \<and>
         u_id new_user \<notin> set (map u_id (users a)) \<and>
         u_password new_user =
           ''pbkdf2:sha256:5$'' @ salt @ ''$'' @ H ''pbkdf2:sha256:5'' salt (rf_password f) \<and>
         (CHR ''$'' \<notin> set salt \<longrightarrow>
            check_password_hash H (u_password new_user) (rf_password f)) \<and>
         session_user_id a' = Some (u_id new_user) \<and>
         current_user a' = Some new_user \<and> is_authenticated a' \<and>
         blog_posts a' = blog_posts a \<and> comments a' = comments a \<and> flashes a' = flashes a)) \<and>
   (find (\<lambda>u. u_email u = rf_email f) (users a) \<noteq> None \<longrightarrow>
      register H (Some f) salt a =
        (Redirect EP_login,
         a\<lparr>flashes := flashes a @
            [(''You'' @ [CHR 0x27] @ ''ve already signed up with that email. Login instead'',
              ''message'')]\<rparr>))"
proof (intro conjI impI)
  assume none: "find (\<lambda>u. u_email u = rf_email f) (users a) = None"
  define new_user where
    "new_user = \<lparr>u_id = next_id (map u_id (users a)), u_email = rf_email f,
        u_password = generate_password_hash H (rf_password f) ''pbkdf2:sha256:5'' salt,
        u_name = rf_name f\<rparr>"
  define a' where
    "a' = login_user new_user (commit (a\<lparr>users := users a @ [new_user]\<rparr>))"
  have run: "register H (Some f) salt a = (Redirect EP_get_all_posts, a')"
    using none by (simp add: register_def Let_def new_user_def a'_def)
  have us: "users a' = users a @ [new_user]"
    by (simp add: a'_def login_user_def commit_def)
  have fresh: "u_id new_user \<notin> set (map u_id (users a))"
    using next_id_fresh[of "map u_id (users a)"] by (simp add: new_user_def)
  have pw: "u_password new_user =
      ''pbkdf2:sha256:5$'' @ salt @ ''$'' @ H ''pbkdf2:sha256:5'' salt (rf_password f)"
    by (simp add: new_user_def generate_password_hash_def)
  have chk: "CHR ''$'' \<notin> set salt \<longrightarrow>
      check_password_hash H (u_password new_user) (rf_password f)"
  proof
    assume s: "CHR ''$'' \<notin> set salt"
    have m: "CHR ''$'' \<notin> set ''pbkdf2:sha256:5''" by simp
    from check_generated_hash[OF m s, of H "rf_password f"] show
      "check_password_hash H (u_password new_user) (rf_password f)"
      by (simp add: new_user_def)
  qed
  have sess: "session_user_id a' = Some (u_id new_user)"
    by (simp add: a'_def login_user_def commit_def)
  have "find (\<lambda>u. u_id u = u_id new_user) (users a @ [new_user]) = Some new_user"
  proof (rule find_snoc_fresh)
    show "\<forall>x \<in> set (users a). \<not> u_id x = u_id new_user"
      using fresh by (metis image_eqI set_map)
  qed simp
  then have cur: "current_user a' = Some new_user"
    by (simp add: current_user_def load_user_def sess us)
  have rest: "blog_posts a' = blog_posts a \<and> comments a' = comments a \<and> flashes a' = flashes a"
    by (simp add: a'_def login_user_def commit_def)
  have "register H (Some f) salt a = (Redirect EP_get_all_posts, a') \<and>
         users a' = users a @ [new_user] \<and>
         u_email new_user = rf_email f \<and> u_name new_user = rf_name f \<and>
         u_id new_user \<notin> set (map u_id (users a)) \<and>
         u_password new_user =
           ''pbkdf2:sha256:5$'' @ salt @ ''$'' @ H ''pbkdf2:sha256:5'' salt (rf_password f) \<and>
         (CHR ''$'' \<notin> set salt \<longrightarrow>
            check_password_hash H (u_password new_user) (rf_password f)) \<and>
         session_user_id a' = Some (u_id new_user) \<and>
         current_user a' = Some new_user \<and> is_authenticated a' \<and>
         blog_posts a' = blog_posts a \<and> comments a' = comments a \<and> flashes a' = flashes a"
    using run us fresh pw chk sess cur rest
    by (simp add: is_authenticated_def new_user_def)
  then show "\<exists>new_user a'.
         register H (Some f) salt a = (Redirect EP_get_all_posts, a') \<and>
         users a' = users a @ [new_user] \<and>
         u_email new_user = rf_email f \<and> u_name new_user = rf_name f \<and>
         u_id new_user \<notin> set (map u_id (users a)) \<and>
         u_password new_user =
           ''pbkdf2:sha256:5$'' @ salt @ ''$'' @ H ''pbkdf2:sha256:5'' salt (rf_password f) \<and>
         (CHR ''$'' \<notin> set salt \<longrightarrow>
            check_password_hash H (u_password new_user) (rf_password f)) \<and>
         session_user_id a' = Some (u_id new_user) \<and>
         current_user a' = Some new_user \<and> is_authenticated a' \<and>
         blog_posts a' = blog_posts a \<and> comments a' = comments a \<and> flashes a' = flashes a"
    by blast
next
  assume "find (\<lambda>u. u_email u = rf_email f) (users a) \<noteq> None"
  then show "register H (Some f) salt a =
        (Redirect EP_login,
         a\<lparr>flashes := flashes a @
            [(''You'' @ [CHR 0x27] @ ''ve already signed up with that email. Login instead'',
              ''message'')]\<rparr>)"
    by (auto simp: register_def flash_def)
qed

theorem register_creates_one_user_witness:
  "find (\<lambda>u. u_email u = rf_email bob_form) (users app_alice) = None \<and>
   length (users (snd (register example_digest (Some bob_form) ''pepper12'' app_alice))) = 2 \<and>
   is_authenticated (snd (register example_digest (Some bob_form) ''pepper12'' app_alice)) \<and>
   find (\<lambda>u. u_email u = rf_email alice_form) (users app_alice) \<noteq> None \<and>
   fst (register example_digest (Some alice_form) ''pepper12'' app_alice) = Redirect EP_login \<and>
   users (snd (register example_digest (Some alice_form) ''pepper12'' app_alice)) = users app_alice \<and>
   flashes (snd (register example_digest (Some alice_form) ''pepper12'' app_alice)) =
     [(''You'' @ [CHR 0x27] @ ''ve already signed up with that email. Login instead'',
       ''message'')]"
proof -
  have n: "find (\<lambda>u. u_email u = rf_email bob_form) (users app_alice) = None"
    by (simp add: app_alice_eq bob_form_def)
  have s: "find (\<lambda>u. u_email u = rf_email alice_form) (users app_alice) \<noteq> None"
    by (simp add: app_alice_eq alice_form_def)
  from n register_creates_one_user[of bob_form app_alice example_digest "''pepper12''"]
  have 1: "length (users (snd (register example_digest (Some bob_form) ''pepper12'' app_alice))) = 2 \<and>
   is_authenticated (snd (register example_digest (Some bob_form) ''pepper12'' app_alice))"
    by (auto simp: app_alice_eq)
  from s register_creates_one_user[of alice_form app_alice example_digest "''pepper12''"]
  have 2: "fst (register example_digest (Some alice_form) ''pepper12'' app_alice) = Redirect EP_login \<and>
   users (snd (register example_digest (Some alice_form) ''pepper12'' app_alice)) = users app_alice \<and>
   flashes (snd (register example_digest (Some alice_form) ''pepper12'' app_alice)) =
     flashes app_alice @
     [(''You'' @ [CHR 0x27] @ ''ve already signed up with that email. Login instead'',
       ''message'')]"
    by auto
  have 3: "flashes app_alice = []"
    by (simp add: app_alice_eq)
  from n s 1 2 3 show ?thesis by simp
qed

section \<open>Login\<close>

lemma find_some_authenticates:
  "find P (users a) = Some user \<Longrightarrow> is_authenticated (login_user user a)"
proof -
  assume "find P (users a) = Some user"
  then have "user \<in> set (users a)" by (simp add: find_in_set)
  then have "find (\<lambda>u. u_id u = u_id user) (users a) \<noteq> None"
    by (auto simp: find_None_iff)
  then show ?thesis
    by (simp add: is_authenticated_def current_user_def load_user_def login_user_def)
qed

text \<open>
  C3. For a validated login form, let \<open>ok\<close> say that the user table has a row with the
  submitted email and that the submitted password passes the check against the hash
  stored in the first such row. When \<open>ok\<close> holds, login redirects to the index and the
  session is that user's, authenticated. When it does not, login renders the login page
  again, the state is the old one with one more flashed message of category error (This
  email does not exist. Please try again. when no row has the email, and Invalid
  password. when the check fails), and the session's user is the one it was (an
  anonymous session stays anonymous). So from an anonymous session the session after
  login is authenticated exactly when \<open>ok\<close>.
\<close>

theorem login_iff_credentials_match:
  "(\<forall>user. find (\<lambda>u. u_email u = lf_email f) (users a) = Some user \<and>
           check_password_hash H (u_password user) (lf_password f) \<longrightarrow>
      login H (Some f) a = (Redirect EP_get_all_posts, a\<lparr>session_user_id := Some (u_id user)\<rparr>) \<and>
      is_authenticated (snd (login H (Some f) a))) \<and>
   (\<not> (\<exists>user. find (\<lambda>u. u_email u = lf_email f) (users a) = Some user \<and>
           check_password_hash H (u_password user) (lf_password f)) \<longrightarrow>
      login H (Some f) a =
        (Render_login,
         a\<lparr>flashes := flashes a @
            [(if find (\<lambda>u. u_email u = lf_email f) (users a) = None
              then ''This email does not exist. Please try again.''
              else ''Invalid password.'', ''error'')]\<rparr>) \<and>
      session_user_id (snd (login H (Some f) a)) = session_user_id a \<and>
      is_authenticated (snd (login H (Some f) a)) = is_authenticated a) \<and>
   (session_user_id a = None \<longrightarrow>
      is_authenticated (snd (login H (Some f) a)) =
        (\<exists>user. find (\<lambda>u. u_email u = lf_email f) (users a) = Some user \<and>
           check_password_hash H (u_password user) (lf_password f)))"
proof -
  have ok: "login H (Some f) a = (Redirect EP_get_all_posts, a\<lparr>session_user_id := Some (u_id user)\<rparr>) \<and>
      is_authenticated (snd (login H (Some f) a))"
    if "find (\<lambda>u. u_email u = lf_email f) (users a) = Some user"
      and "check_password_hash H (u_password user) (lf_password f)" for user
    using that find_some_authenticates[OF that(1)]
    by (simp add: login_def login_user_def)
  have bad: "login H (Some f) a =
        (Render_login,
         a\<lparr>flashes := flashes a @
            [(if find (\<lambda>u. u_email u = lf_email f) (users a) = None
              then ''This email does not exist. Please try again.''
              else ''Invalid password.'', ''error'')]\<rparr>) \<and>
      session_user_id (snd (login H (Some f) a)) = session_user_id a \<and>
      is_authenticated (snd (login H (Some f) a)) = is_authenticated a"
    if "\<not> (\<exists>user. find (\<lambda>u. u_email u = lf_email f) (users a) = Some user \<and>
           check_password_hash H (u_password user) (lf_password f))"
  proof (cases "find (\<lambda>u. u_email u = lf_email f) (users a)")
    case None
    then have run: "login H (Some f) a = (Render_login,
        a\<lparr>flashes := flashes a @ [(''This email does not exist. Please try again.'', ''error'')]\<rparr>)"
      by (simp add: login_def flash_def)
    show ?thesis
      using None unfolding run
      by (auto simp: is_authenticated_def current_user_def load_user_def split: option.splits)
  next
    case (Some user)
    with that have "\<not> check_password_hash H (u_password user) (lf_password f)" by simp
    with Some have run: "login H (Some f) a = (Render_login,
        a\<lparr>flashes := flashes a @ [(''Invalid password.'', ''error'')]\<rparr>)"
      by (simp add: login_def flash_def)
    show ?thesis
      using Some unfolding run
      by (auto simp: is_authenticated_def current_user_def load_user_def split: option.splits)
  qed
  have anon: "is_authenticated (snd (login H (Some f) a)) =
        (\<exists>user. find (\<lambda>u. u_email u = lf_email f) (users a) = Some user \<and>
           check_password_hash H (u_password user) (lf_password f))"
    if "session_user_id a = None"
  proof (cases "\<exists>user. find (\<lambda>u. u_email u = lf_email f) (users a) = Some user \<and>
           check_password_hash H (u_password user) (lf_password f)")
    case True
    with ok show ?thesis by blast
  next
    case False
    have "\<not> is_authenticated a"
      using that by (simp add: is_authenticated_def current_user_def)
    moreover from bad[OF False]
    have "is_authenticated (snd (login H (Some f) a)) = is_authenticated a"
      by (elim conjE)
    ultimately show ?thesis using False by simp
  qed
  from ok bad anon show ?thesis by blast
qed

theorem login_iff_credentials_match_witness:
  "login example_digest (Some \<lparr>lf_email = ''a@x.com'', lf_password = ''pw''\<rparr>) app_anon
     = (Redirect EP_get_all_posts, app_alice) \<and>
   fst (login example_digest (Some \<lparr>lf_email = ''a@x.com'', lf_password = ''wrong''\<rparr>)
         app_anon) = Render_login \<and>
   \<not> is_authenticated (snd (login example_digest
         (Some \<lparr>lf_email = ''a@x.com'', lf_password = ''wrong''\<rparr>) app_anon)) \<and>
   \<not> is_authenticated (snd (login example_digest
         (Some \<lparr>lf_email = ''c@x.com'', lf_password = ''pw''\<rparr>) app_anon)) \<and>
   flashes (snd (login example_digest
         (Some \<lparr>lf_email = ''a@x.com'', lf_password = ''wrong''\<rparr>) app_anon)) =
     [(''Invalid password.'', ''error'')] \<and>
   flashes (snd (login example_digest
         (Some \<lparr>lf_email = ''c@x.com'', lf_password = ''pw''\<rparr>) app_anon)) =
     [(''This email does not exist. Please try again.'', ''error'')]"
proof -
  let ?alice = "\<lparr>u_id = 1, u_email = ''a@x.com'',
        u_password = ''pbkdf2:sha256:5$saltsalt$pbkdf2:sha256:5saltsaltpw'', u_name = ''Alice''\<rparr>"
  have anon: "session_user_id app_anon = None" "\<not> is_authenticated app_anon"
    by (simp_all add: app_anon_eq session_defs)
  have f: "find (\<lambda>u. u_email u = ''a@x.com'') (users app_anon) = Some ?alice"
    by (simp add: app_anon_eq)
  have g: "find (\<lambda>u. u_email u = ''c@x.com'') (users app_anon) = None"
    by (simp add: app_anon_eq)
  have good: "check_password_hash example_digest (u_password ?alice) ''pw''"
    by (simp add: check_password_hash_def example_digest_def Let_def)
  have wrong: "\<not> check_password_hash example_digest (u_password ?alice) ''wrong''"
    by (simp add: check_password_hash_def example_digest_def Let_def)
  have relog: "app_anon\<lparr>session_user_id := Some (u_id ?alice)\<rparr> = app_alice"
    by (simp add: app_anon_eq app_alice_eq)
  from f good
    login_iff_credentials_match[of "\<lparr>lf_email = ''a@x.com'', lf_password = ''pw''\<rparr>" app_anon example_digest]
  have "login example_digest (Some \<lparr>lf_email = ''a@x.com'', lf_password = ''pw''\<rparr>) app_anon
     = (Redirect EP_get_all_posts, app_anon\<lparr>session_user_id := Some (u_id ?alice)\<rparr>)"
    by simp
  then have 1: "login example_digest (Some \<lparr>lf_email = ''a@x.com'', lf_password = ''pw''\<rparr>) app_anon
     = (Redirect EP_get_all_posts, app_alice)"
    unfolding relog .
  from f wrong anon
    login_iff_credentials_match[of "\<lparr>lf_email = ''a@x.com'', lf_password = ''wrong''\<rparr>" app_anon example_digest]
  have 2: "fst (login example_digest (Some \<lparr>lf_email = ''a@x.com'', lf_password = ''wrong''\<rparr>) app_anon)
      = Render_login \<and>
    \<not> is_authenticated (snd (login example_digest
         (Some \<lparr>lf_email = ''a@x.com'', lf_password = ''wrong''\<rparr>) app_anon)) \<and>
    flashes (snd (login example_digest
         (Some \<lparr>lf_email = ''a@x.com'', lf_password = ''wrong''\<rparr>) app_anon)) =
     flashes app_anon @ [(''Invalid password.'', ''error'')]"
    by auto
  from g anon
    login_iff_credentials_match[of "\<lparr>lf_email = ''c@x.com'', lf_password = ''pw''\<rparr>" app_anon example_digest]
  have 3: "\<not> is_authenticated (snd (login example_digest
         (Some \<lparr>lf_email = ''c@x.com'', lf_password = ''pw''\<rparr>) app_anon)) \<and>
    flashes (snd (login example_digest
         (Some \<lparr>lf_email = ''c@x.com'', lf_password = ''pw''\<rparr>) app_anon)) =
     flashes app_anon @ [(''This email does not exist. Please try again.'', ''error'')]"
    by auto
  have 4: "flashes app_anon = []"
    by (simp add: app_anon_eq)
  from 1 2 3 4 show ?thesis by simp
qed

section \<open>The example states with posts, evaluated\<close>

lemma app_hello_eq:
  "app_hello = \<lparr>users = [\<lparr>u_id = 1, u_email = ''a@x.com'',
        u_password = ''pbkdf2:sha256:5$saltsalt$pbkdf2:sha256:5saltsaltpw'', u_name = ''Alice''\<rparr>],
      blog_posts = [\<lparr>p_id = 1, p_author_id = Some 1, p_title = ''Hello'', p_subtitle = ''Sub'',
        p_date = ''November 04, 2026'', p_body = ''Body'', p_img_url = ''http://img''\<rparr>],
      comments = [], commits = 2, session_user_id = Some 1, flashes = []\<rparr>"
  unfolding app_hello_def app_alice_eq
  by (simp add: add_new_post_def add_new_post_view_def admin_only_def hello_form_def a_day_def
      session_defs strftime_B_d_Y_def month_name_def digit_def Let_def)

lemma app_two_eq:
  "app_two = \<lparr>users = [\<lparr>u_id = 1, u_email = ''a@x.com'',
        u_password = ''pbkdf2:sha256:5$saltsalt$pbkdf2:sha256:5saltsaltpw'', u_name = ''Alice''\<rparr>],
      blog_posts = [\<lparr>p_id = 1, p_author_id = Some 1, p_title = ''Hello'', p_subtitle = ''Sub'',
        p_date = ''November 04, 2026'', p_body = ''Body'', p_img_url = ''http://img''\<rparr>,
       \<lparr>p_id = 2, p_author_id = Some 1, p_title = ''News'', p_subtitle = ''Sub'',
        p_date = ''November 04, 2026'', p_body = ''Text'', p_img_url = ''http://img2''\<rparr>],
      comments = [\<lparr>c_id = 1, c_author_id = Some 1, c_post_id = Some 1, c_text = ''Nice!''\<rparr>,
        \<lparr>c_id = 2, c_author_id = Some 1, c_post_id = Some 2, c_text = ''Second!''\<rparr>],
      commits = 5, session_user_id = Some 1, flashes = []\<rparr>"
  unfolding app_two_def app_hello_eq
  by (simp add: add_new_post_def add_new_post_view_def admin_only_def news_form_def a_day_def
      show_post_unfold session_defs strftime_B_d_Y_def month_name_def digit_def Let_def)

section \<open>The post page and its comments\<close>

text \<open>
  C4, as the specification words it, fails: it promises a new comment for every comment
  submission of an authenticated session, and a redirect to login for every anonymous
  one. An authenticated session that submits a comment to the id 9, which has no row,
  gets AttributeError and no comment is stored; an anonymous session that submits to the
  id \<open>2^63\<close> gets OverflowError from the lookup and no redirect.
\<close>

theorem comment_submission_counterexample:
  "is_authenticated app_hello \<and>
   show_post 9 (Some ''Nice!'') app_hello = (Raise AttributeError, app_hello) \<and>
   current_user app_anon = None \<and>
   show_post (2 ^ 63) (Some ''Nice!'') app_anon = (Raise OverflowError, app_anon)"
proof -
  have 1: "is_authenticated app_hello"
    by (simp add: app_hello_eq session_defs)
  have 2: "show_post 9 (Some ''Nice!'') app_hello = (Raise AttributeError, app_hello)"
    using 1 by (simp add: show_post_unfold Let_def is_authenticated_def app_hello_eq
        split: option.splits)
  have 3: "current_user app_anon = None"
    by (simp add: app_anon_eq session_defs)
  have 4: "show_post (2 ^ 63) (Some ''Nice!'') app_anon = (Raise OverflowError, app_anon)"
    by (simp add: show_post_unfold app_anon_eq)
  from 1 2 3 4 show ?thesis by simp
qed

text \<open>
  C4, as the code has it. A validated comment submission on the page of a post that is in
  the table, from an authenticated session: exactly one row is appended to the comment
  table, with a fresh identifier, the submitted text, the session's user as author and
  the viewed post as parent, and nothing else in the store or the session changes; the
  page is rendered again with the new comment. A validated comment submission from an
  anonymous session, for a post id below \<open>2^63\<close> (with or without a row): the answer is a
  redirect to the login page, the only change is the flashed prompt You need to login or
  register to comment., and the resulting state is the same for every submitted text: no
  comment row is stored and the content is dropped.
\<close>

theorem comment_submission:
  "(\<forall>u p. current_user a = Some u \<and> find (\<lambda>p. p_id p = post_id) (blog_posts a) = Some p \<longrightarrow>
      (\<exists>new_comment a'.
         show_post post_id (Some text) a = (Render_post (Some p) True (comments a'), a') \<and>
         comments a' = comments a @ [new_comment] \<and>
         c_author_id new_comment = Some (u_id u) \<and>
         c_post_id new_comment = Some (p_id p) \<and> p_id p = post_id \<and>
         c_text new_comment = text \<and>
         c_id new_comment \<notin> set (map c_id (comments a)) \<and>
         users a' = users a \<and> blog_posts a' = blog_posts a \<and>
         session_user_id a' = session_user_id a \<and> flashes a' = flashes a)) \<and>
   (current_user a = None \<and> post_id < 2 ^ 63 \<longrightarrow>
      (\<forall>t. show_post post_id (Some t) a =
         (Redirect EP_login,
          a\<lparr>flashes := flashes a @
             [(''You need to login or register to comment.'', ''message'')]\<rparr>)))"
proof (intro conjI allI impI)
  fix u p
  assume h: "current_user a = Some u \<and> find (\<lambda>p. p_id p = post_id) (blog_posts a) = Some p"
  define new_comment where
    "new_comment = \<lparr>c_id = next_id (map c_id (comments a)), c_author_id = Some (u_id u),
       c_post_id = Some (p_id p), c_text = text\<rparr>"
  define a' where "a' = commit (a\<lparr>comments := comments a @ [new_comment]\<rparr>)"
  have run: "show_post post_id (Some text) a = (Render_post (Some p) True (comments a'), a')"
    using h by (simp add: show_post_unfold Let_def is_authenticated_def new_comment_def a'_def)
  have pid: "p_id p = post_id"
    using h find_in_set[of "\<lambda>p. p_id p = post_id" "blog_posts a" p] by simp
  have fresh: "c_id new_comment \<notin> set (map c_id (comments a))"
    using next_id_fresh[of "map c_id (comments a)"] by (simp add: new_comment_def)
  have "show_post post_id (Some text) a = (Render_post (Some p) True (comments a'), a') \<and>
         comments a' = comments a @ [new_comment] \<and>
         c_author_id new_comment = Some (u_id u) \<and>
         c_post_id new_comment = Some (p_id p) \<and> p_id p = post_id \<and>
         c_text new_comment = text \<and>
         c_id new_comment \<notin> set (map c_id (comments a)) \<and>
         users a' = users a \<and> blog_posts a' = blog_posts a \<and>
         session_user_id a' = session_user_id a \<and> flashes a' = flashes a"
    using run pid fresh by (simp add: a'_def commit_def new_comment_def)
  then show "\<exists>new_comment a'.
         show_post post_id (Some text) a = (Render_post (Some p) True (comments a'), a') \<and>
         comments a' = comments a @ [new_comment] \<and>
         c_author_id new_comment = Some (u_id u) \<and>
         c_post_id new_comment = Some (p_id p) \<and> p_id p = post_id \<and>
         c_text new_comment = text \<and>
         c_id new_comment \<notin> set (map c_id (comments a)) \<and>
         users a' = users a \<and> blog_posts a' = blog_posts a \<and>
         session_user_id a' = session_user_id a \<and> flashes a' = flashes a"
    by blast
next
  fix t
  assume "current_user a = None \<and> post_id < 2 ^ 63"
  then show "show_post post_id (Some t) a =
      (Redirect EP_login,
       a\<lparr>flashes := flashes a @
          [(''You need to login or register to comment.'', ''message'')]\<rparr>)"
    by (simp add: show_post_unfold Let_def flash_def)
qed

theorem comment_submission_witness:
  "current_user app_hello \<noteq> None \<and>
   find (\<lambda>p. p_id p = 1) (blog_posts app_hello) \<noteq> None \<and>
   length (comments (snd (show_post 1 (Some ''Nice!'') app_hello))) = 1 \<and>
   current_user app_anon = None \<and> (1::nat) < 2 ^ 63 \<and>
   show_post 1 (Some ''Nice!'') app_anon =
     (Redirect EP_login,
      app_anon\<lparr>flashes := [(''You need to login or register to comment.'', ''message'')]\<rparr>)"
proof -
  let ?alice = "\<lparr>u_id = 1, u_email = ''a@x.com'',
        u_password = ''pbkdf2:sha256:5$saltsalt$pbkdf2:sha256:5saltsaltpw'', u_name = ''Alice''\<rparr>"
  let ?hello = "\<lparr>p_id = 1, p_author_id = Some 1, p_title = ''Hello'', p_subtitle = ''Sub'',
        p_date = ''November 04, 2026'', p_body = ''Body'', p_img_url = ''http://img''\<rparr>"
  have u: "current_user app_hello = Some ?alice"
    by (simp add: app_hello_eq session_defs)
  have p: "find (\<lambda>p. p_id p = 1) (blog_posts app_hello) = Some ?hello"
    by (simp add: app_hello_eq)
  have c: "comments app_hello = []"
    by (simp add: app_hello_eq)
  have n: "current_user app_anon = None"
    by (simp add: app_anon_eq session_defs)
  have b: "(1::nat) < 2 ^ 63"
    by simp
  have e: "flashes app_anon = []"
    by (simp add: app_anon_eq)
  from u p c comment_submission[of app_hello 1 "''Nice!''"]
  have 1: "length (comments (snd (show_post 1 (Some ''Nice!'') app_hello))) = 1"
    by auto
  from n b comment_submission[of app_anon 1 "''Nice!''"]
  have "show_post 1 (Some ''Nice!'') app_anon =
     (Redirect EP_login,
      app_anon\<lparr>flashes := flashes app_anon @
         [(''You need to login or register to comment.'', ''message'')]\<rparr>)"
    by blast
  then have 2: "show_post 1 (Some ''Nice!'') app_anon =
     (Redirect EP_login,
      app_anon\<lparr>flashes := [(''You need to login or register to comment.'', ''message'')]\<rparr>)"
    unfolding e by simp
  from u p n b 1 2 show ?thesis by simp
qed

text \<open>
  C5. Whenever the post page is rendered, for any post id, the comments handed to the
  template are the whole comment table of the store, in row order: nothing is filtered by
  the id of the post being shown. On the example, the page of post 1 lists the comment
  written on post 2.
\<close>

theorem post_page_lists_all_comments:
  "show_post post_id form a = (Render_post p logged_in listed, a') \<longrightarrow> listed = comments a'"
  by (auto simp: show_post_unfold Let_def split: option.splits)

theorem post_page_lists_all_comments_witness:
  "show_post 1 None app_two = (Render_post (find (\<lambda>p. p_id p = 1) (blog_posts app_two)) True
       (comments app_two), app_two) \<and>
   \<lparr>c_id = 2, c_author_id = Some 1, c_post_id = Some 2, c_text = ''Second!''\<rparr>
      \<in> set (comments app_two)"
proof -
  have r: "show_post 1 None app_two = (Render_post (find (\<lambda>p. p_id p = 1) (blog_posts app_two))
       (is_authenticated app_two) (comments app_two), app_two)"
    by (simp add: show_post_unfold Let_def)
  have l: "is_authenticated app_two"
    by (simp add: app_two_eq session_defs)
  have m: "\<lparr>c_id = 2, c_author_id = Some 1, c_post_id = Some 2, c_text = ''Second!''\<rparr>
      \<in> set (comments app_two)"
    by (simp add: app_two_eq)
  from r l m post_page_lists_all_comments[of 1 None app_two
      "find (\<lambda>p. p_id p = 1) (blog_posts app_two)" True "comments app_two" app_two]
  show ?thesis by simp
qed

text \<open>
  C10, as the specification words it, fails: it promises a rendered page for the GET of
  every post id that has no row. The id \<open>2^63\<close> has no row, the route accepts it, and the
  lookup raises OverflowError instead.
\<close>

theorem missing_post_page_counterexample:
  "find (\<lambda>p. p_id p = 2 ^ 63) (blog_posts app_hello) = None \<and>
   show_post (2 ^ 63) None app_hello = (Raise OverflowError, app_hello)"
proof -
  have n: "find (\<lambda>p. p_id p = 2 ^ 63) (blog_posts app_hello) = None"
    by (simp add: app_hello_eq)
  then show ?thesis
    by (simp add: show_post_unfold)
qed

text \<open>
  C10, as the code has it. For a post id below \<open>2^63\<close> with no row in the post table, a
  GET of the post page raises nothing and renders the template with the post absent
  (\<open>None\<close>) and the store unchanged, while a validated comment submission from an
  authenticated session raises AttributeError (the read of the missing post's
  identifier) and stores nothing. For a post id of \<open>2^63\<close> or more with no row, GET and
  submission alike raise OverflowError at the lookup and change nothing.
\<close>

theorem missing_post_page:
  "(find (\<lambda>p. p_id p = post_id) (blog_posts a) = None \<and> post_id < 2 ^ 63 \<longrightarrow>
      show_post post_id None a = (Render_post None (is_authenticated a) (comments a), a) \<and>
      (is_authenticated a \<longrightarrow> show_post post_id (Some text) a = (Raise AttributeError, a))) \<and>
   (find (\<lambda>p. p_id p = post_id) (blog_posts a) = None \<and> 2 ^ 63 \<le> post_id \<longrightarrow>
      show_post post_id form a = (Raise OverflowError, a))"
  by (auto simp: show_post_unfold Let_def is_authenticated_def split: option.splits)

theorem missing_post_page_witness:
  "find (\<lambda>p. p_id p = 9) (blog_posts app_hello) = None \<and> (9::nat) < 2 ^ 63 \<and>
   is_authenticated app_hello \<and>
   show_post 9 None app_hello = (Render_post None True (comments app_hello), app_hello) \<and>
   show_post 9 (Some ''Nice!'') app_hello = (Raise AttributeError, app_hello) \<and>
   find (\<lambda>p. p_id p = 2 ^ 63 + 5) (blog_posts app_hello) = None \<and>
   (2::nat) ^ 63 \<le> 2 ^ 63 + 5 \<and>
   show_post (2 ^ 63 + 5) (Some ''Nice!'') app_hello = (Raise OverflowError, app_hello)"
proof -
  have n: "find (\<lambda>p. p_id p = 9) (blog_posts app_hello) = None"
    by (simp add: app_hello_eq)
  have b: "(9::nat) < 2 ^ 63"
    by simp
  have l: "is_authenticated app_hello"
    by (simp add: app_hello_eq session_defs)
  have m: "find (\<lambda>p. p_id p = 2 ^ 63 + 5) (blog_posts app_hello) = None"
    by (simp add: app_hello_eq)
  have c: "(2::nat) ^ 63 \<le> 2 ^ 63 + 5"
    by simp
  from n b l missing_post_page[of 9 app_hello "''Nice!''" None]
  have 1: "show_post 9 None app_hello = (Render_post None True (comments app_hello), app_hello) \<and>
   show_post 9 (Some ''Nice!'') app_hello = (Raise AttributeError, app_hello)"
    by simp
  from m c missing_post_page[of "2 ^ 63 + 5" app_hello "''Nice!''" "Some ''Nice!''"]
  have 2: "show_post (2 ^ 63 + 5) (Some ''Nice!'') app_hello = (Raise OverflowError, app_hello)"
    by blast
  from n b l m c 1 2 show ?thesis by simp
qed

section \<open>Creating and editing posts\<close>

lemma strftime_two_digit_day:
  assumes "day d < 100"
  shows "strftime_B_d_Y d =
     month_name (month d) @ '' '' @ [digit (day d div 10), digit (day d mod 10)] @ '', '' @
     decimal (year d)"
proof (cases "day d < 10")
  case True
  then show ?thesis by (simp add: strftime_B_d_Y_def digit_def)
next
  case False
  with assms have "day d div 10 < 10" by simp
  then have "decimal (day d) = [digit (day d div 10), digit (day d mod 10)]"
    using False by (subst decimal.simps) simp
  with False show ?thesis by (simp add: strftime_B_d_Y_def)
qed

lemma decimal_small: "n < 10 \<Longrightarrow> decimal n = [digit n]"
  by (subst decimal.simps) simp

lemma decimal_step: "10 \<le> n \<Longrightarrow> decimal n = decimal (n div 10) @ [digit (n mod 10)]"
  by (subst decimal.simps) simp

lemma decimal_four:
  assumes "1000 \<le> n" "n \<le> 9999"
  shows "decimal n = [digit (n div 1000), digit (n div 100 mod 10), digit (n div 10 mod 10),
      digit (n mod 10)]"
proof -
  have a: "n div 10 div 10 = n div 100" "n div 100 div 10 = n div 1000"
    by (simp_all add: div_mult2_eq)
  have b: "10 \<le> n" "10 \<le> n div 10" "10 \<le> n div 100" "n div 1000 < 10"
    using assms by simp_all
  have "decimal n = decimal (n div 10) @ [digit (n mod 10)]"
    using b(1) by (rule decimal_step)
  also have "decimal (n div 10) = decimal (n div 100) @ [digit (n div 10 mod 10)]"
    using decimal_step[OF b(2)] by (simp only: a)
  also have "decimal (n div 100) = decimal (n div 1000) @ [digit (n div 100 mod 10)]"
    using decimal_step[OF b(3)] by (simp only: a)
  also have "decimal (n div 1000) = [digit (n div 1000)]"
    using b(4) by (rule decimal_small)
  finally show ?thesis by simp
qed

lemma strftime_month_dd_yyyy:
  assumes "day d < 100" "1000 \<le> year d" "year d \<le> 9999"
  shows "strftime_B_d_Y d =
        [''January'', ''February'', ''March'', ''April'', ''May'', ''June'', ''July'',
         ''August'', ''September'', ''October'', ''November'', ''December''] ! (month d - 1) @ '' '' @
        [''0123456789'' ! (day d div 10), ''0123456789'' ! (day d mod 10)] @ '', '' @
        [''0123456789'' ! (year d div 1000), ''0123456789'' ! (year d div 100 mod 10),
         ''0123456789'' ! (year d div 10 mod 10), ''0123456789'' ! (year d mod 10)]"
  unfolding strftime_two_digit_day[OF assms(1)] decimal_four[OF assms(2,3)]
    month_name_def digit_def
  by (rule refl)

text \<open>
  C6. Post creation answers with the redirect to the index only when it has stored a
  post, and it does so for every validated form from the privileged session whose title
  is not yet in the table. The stored post is one new row at the end of the post table:
  its title, subtitle, body and image URL are the submitted ones, its author is the
  session's user, and its date is today's date formatted: for a day 1 to 31 of a month 1
  to 12 of a year 1000 to 9999, the English name of the month (January for 1, up to
  December for 12), a space, the two decimal digits of the day (a leading 0 below 10), a
  comma and a space, and the four decimal digits of the year.
\<close>

theorem post_creation:
  "(add_new_post form today a = (Redirect EP_get_all_posts, a') \<longrightarrow>
      (\<exists>f u new_post.
         form = Some f \<and> current_user a = Some u \<and>
         blog_posts a' = blog_posts a @ [new_post] \<and>
         p_author_id new_post = Some (u_id u) \<and>
         p_date new_post = strftime_B_d_Y today \<and>
         p_title new_post = pf_title f \<and> p_subtitle new_post = pf_subtitle f \<and>
         p_body new_post = pf_body f \<and> p_img_url new_post = pf_img_url f \<and>
         p_id new_post \<notin> set (map p_id (blog_posts a)) \<and>
         users a' = users a \<and> comments a' = comments a)) \<and>
   (privileged a \<and> pf_title g \<notin> set (map p_title (blog_posts a)) \<longrightarrow>
      fst (add_new_post (Some g) today a) = Redirect EP_get_all_posts) \<and>
   (1 \<le> month today \<and> month today \<le> 12 \<and> 1 \<le> day today \<and> day today \<le> 31 \<and>
    1000 \<le> year today \<and> year today \<le> 9999 \<longrightarrow>
      strftime_B_d_Y today =
        [''January'', ''February'', ''March'', ''April'', ''May'', ''June'', ''July'',
         ''August'', ''September'', ''October'', ''November'', ''December''] ! (month today - 1) @ '' '' @
        [''0123456789'' ! (day today div 10), ''0123456789'' ! (day today mod 10)] @ '', '' @
        [''0123456789'' ! (year today div 1000), ''0123456789'' ! (year today div 100 mod 10),
         ''0123456789'' ! (year today div 10 mod 10), ''0123456789'' ! (year today mod 10)])"
proof (intro conjI impI)
  assume run: "add_new_post form today a = (Redirect EP_get_all_posts, a')"
  then have priv: "is_authenticated a \<and> map_option u_id (current_user a) = Some 1"
    by (auto simp: add_new_post_def admin_only_def split: if_splits)
  then obtain u where u: "current_user a = Some u"
    by (auto simp: is_authenticated_def)
  from run priv have view: "add_new_post_view form today a = (Redirect EP_get_all_posts, a')"
    by (simp add: add_new_post_def admin_only_def)
  then obtain f where f: "form = Some f"
    by (cases form) (auto simp: add_new_post_view_def)
  define new_post where
    "new_post = \<lparr>p_id = next_id (map p_id (blog_posts a)), p_author_id = Some (u_id u),
       p_title = pf_title f, p_subtitle = pf_subtitle f, p_date = strftime_B_d_Y today,
       p_body = pf_body f, p_img_url = pf_img_url f\<rparr>"
  from view f u have a': "a' = commit (a\<lparr>blog_posts := blog_posts a @ [new_post]\<rparr>)"
    by (auto simp: add_new_post_view_def Let_def new_post_def split: if_splits)
  have fresh: "p_id new_post \<notin> set (map p_id (blog_posts a))"
    using next_id_fresh[of "map p_id (blog_posts a)"] by (simp add: new_post_def)
  have "form = Some f \<and> current_user a = Some u \<and>
         blog_posts a' = blog_posts a @ [new_post] \<and>
         p_author_id new_post = Some (u_id u) \<and>
         p_date new_post = strftime_B_d_Y today \<and>
         p_title new_post = pf_title f \<and> p_subtitle new_post = pf_subtitle f \<and>
         p_body new_post = pf_body f \<and> p_img_url new_post = pf_img_url f \<and>
         p_id new_post \<notin> set (map p_id (blog_posts a)) \<and>
         users a' = users a \<and> comments a' = comments a"
    using f u fresh by (simp add: a' commit_def new_post_def)
  then show "\<exists>f u new_post.
         form = Some f \<and> current_user a = Some u \<and>
         blog_posts a' = blog_posts a @ [new_post] \<and>
         p_author_id new_post = Some (u_id u) \<and>
         p_date new_post = strftime_B_d_Y today \<and>
         p_title new_post = pf_title f \<and> p_subtitle new_post = pf_subtitle f \<and>
         p_body new_post = pf_body f \<and> p_img_url new_post = pf_img_url f \<and>
         p_id new_post \<notin> set (map p_id (blog_posts a)) \<and>
         users a' = users a \<and> comments a' = comments a"
    by blast
next
  assume "privileged a \<and> pf_title g \<notin> set (map p_title (blog_posts a))"
  then show "fst (add_new_post (Some g) today a) = Redirect EP_get_all_posts"
    by (simp add: privileged_def add_new_post_def admin_only_def add_new_post_view_def Let_def)
next
  assume "1 \<le> month today \<and> month today \<le> 12 \<and> 1 \<le> day today \<and> day today \<le> 31 \<and>
    1000 \<le> year today \<and> year today \<le> 9999"
  then have "day today < 100" "1000 \<le> year today" "year today \<le> 9999"
    by simp_all
  then show "strftime_B_d_Y today =
        [''January'', ''February'', ''March'', ''April'', ''May'', ''June'', ''July'',
         ''August'', ''September'', ''October'', ''November'', ''December''] ! (month today - 1) @ '' '' @
        [''0123456789'' ! (day today div 10), ''0123456789'' ! (day today mod 10)] @ '', '' @
        [''0123456789'' ! (year today div 1000), ''0123456789'' ! (year today div 100 mod 10),
         ''0123456789'' ! (year today div 10 mod 10), ''0123456789'' ! (year today mod 10)]"
    by (rule strftime_month_dd_yyyy)
qed

theorem post_creation_witness:
  "add_new_post (Some hello_form) a_day app_alice = (Redirect EP_get_all_posts, app_hello) \<and>
   blog_posts app_hello =
     [\<lparr>p_id = 1, p_author_id = Some 1, p_title = ''Hello'', p_subtitle = ''Sub'',
       p_date = ''November 04, 2026'', p_body = ''Body'', p_img_url = ''http://img''\<rparr>] \<and>
   privileged app_alice \<and> pf_title hello_form \<notin> set (map p_title (blog_posts app_alice)) \<and>
   strftime_B_d_Y a_day = ''November 04, 2026'' \<and>
   strftime_B_d_Y \<lparr>year = 1999, month = 1, day = 31\<rparr> = ''January 31, 1999''"
proof -
  let ?d = "\<lparr>year = 1999, month = 1, day = 31\<rparr>"
  have p: "privileged app_alice"
    by (simp add: app_alice_eq privileged_def session_defs)
  have t: "pf_title hello_form \<notin> set (map p_title (blog_posts app_alice))"
    by (simp add: app_alice_eq)
  have d: "1 \<le> month a_day \<and> month a_day \<le> 12 \<and> 1 \<le> day a_day \<and> day a_day \<le> 31 \<and>
    1000 \<le> year a_day \<and> year a_day \<le> 9999"
    by (simp add: a_day_def)
  have e: "1 \<le> month ?d \<and> month ?d \<le> 12 \<and> 1 \<le> day ?d \<and> day ?d \<le> 31 \<and>
    1000 \<le> year ?d \<and> year ?d \<le> 9999"
    by simp
  have r: "add_new_post (Some hello_form) a_day app_alice
      = (fst (add_new_post (Some hello_form) a_day app_alice), app_hello)"
    by (simp add: app_hello_def)
  have b: "blog_posts app_hello =
     [\<lparr>p_id = 1, p_author_id = Some 1, p_title = ''Hello'', p_subtitle = ''Sub'',
       p_date = ''November 04, 2026'', p_body = ''Body'', p_img_url = ''http://img''\<rparr>]"
    by (simp add: app_hello_eq)
  note today = post_creation[of "Some hello_form" a_day app_alice app_hello hello_form]
  note other = post_creation[of "Some hello_form" ?d app_alice app_hello hello_form]
  from today p t
  have 1: "fst (add_new_post (Some hello_form) a_day app_alice) = Redirect EP_get_all_posts"
    by blast
  from today d
  have "strftime_B_d_Y a_day =
        [''January'', ''February'', ''March'', ''April'', ''May'', ''June'', ''July'',
         ''August'', ''September'', ''October'', ''November'', ''December''] ! (month a_day - 1) @ '' '' @
        [''0123456789'' ! (day a_day div 10), ''0123456789'' ! (day a_day mod 10)] @ '', '' @
        [''0123456789'' ! (year a_day div 1000), ''0123456789'' ! (year a_day div 100 mod 10),
         ''0123456789'' ! (year a_day div 10 mod 10), ''0123456789'' ! (year a_day mod 10)]"
    by blast
  then have 3: "strftime_B_d_Y a_day = ''November 04, 2026''"
    by (simp add: a_day_def)
  from other e
  have "strftime_B_d_Y ?d =
        [''January'', ''February'', ''March'', ''April'', ''May'', ''June'', ''July'',
         ''August'', ''September'', ''October'', ''November'', ''December''] ! (month ?d - 1) @ '' '' @
        [''0123456789'' ! (day ?d div 10), ''0123456789'' ! (day ?d mod 10)] @ '', '' @
        [''0123456789'' ! (year ?d div 1000), ''0123456789'' ! (year ?d div 100 mod 10),
         ''0123456789'' ! (year ?d div 10 mod 10), ''0123456789'' ! (year ?d mod 10)]"
    by blast
  then have 5: "strftime_B_d_Y ?d = ''January 31, 1999''"
    by simp
  from r 1 have 4: "add_new_post (Some hello_form) a_day app_alice
      = (Redirect EP_get_all_posts, app_hello)"
    by simp
  from p t b 3 4 5 show ?thesis by simp
qed

text \<open>
  C7. Post editing answers with a redirect only when it has stored an edit of a post that
  is in the table, and then the post table is the old one in which the rows with the
  edited identifier have the submitted title, subtitle, image URL and body and are
  otherwise as before: identifier, author and date of every row are the old ones, the
  other rows are untouched, and so are the users and the comments.
\<close>

theorem post_edit_frame:
  "(edit_post post_id form a = (Redirect ep, a') \<longrightarrow>
     (\<exists>f. form = Some f \<and> ep = EP_show_post post_id \<and>
        post_id \<in> set (map p_id (blog_posts a)) \<and>
        blog_posts a' =
          map (\<lambda>q. if p_id q = post_id
                    then q\<lparr>p_title := pf_title f, p_subtitle := pf_subtitle f,
                           p_img_url := pf_img_url f, p_body := pf_body f\<rparr>
                    else q) (blog_posts a) \<and>
        map p_author_id (blog_posts a') = map p_author_id (blog_posts a) \<and>
        map p_date (blog_posts a') = map p_date (blog_posts a) \<and>
        map p_id (blog_posts a') = map p_id (blog_posts a) \<and>
        users a' = users a \<and> comments a' = comments a)) \<and>
   (privileged a \<and> find (\<lambda>p. p_id p = post_id) (blog_posts a) = Some post \<and>
    p_author_id post = Some i \<and> load_user a i = Some author \<and>
    (\<forall>q \<in> set (blog_posts a). p_id q = post_id \<or> p_title q \<noteq> pf_title g) \<longrightarrow>
      fst (edit_post post_id (Some g) a) = Redirect (EP_show_post post_id))"
proof (intro conjI impI)
  assume h: "privileged a \<and> find (\<lambda>p. p_id p = post_id) (blog_posts a) = Some post \<and>
    p_author_id post = Some i \<and> load_user a i = Some author \<and>
    (\<forall>q \<in> set (blog_posts a). p_id q = post_id \<or> p_title q \<noteq> pf_title g)"
  then have pid: "p_id post = post_id"
    using find_in_set[of "\<lambda>p. p_id p = post_id" "blog_posts a" post] by simp
  from h have "\<not> (\<exists>q \<in> set (blog_posts a). p_id q \<noteq> post_id \<and> p_title q = pf_title g)"
    by blast
  with h pid show "fst (edit_post post_id (Some g) a) = Redirect (EP_show_post post_id)"
    by (simp add: privileged_def edit_post_def admin_only_def edit_post_view_unfold Let_def)
next
  assume run: "edit_post post_id form a = (Redirect ep, a')"
  then have view: "edit_post_view post_id form a = (Redirect ep, a')"
    by (auto simp: edit_post_def admin_only_def split: if_splits)
  then obtain post where post: "find (\<lambda>p. p_id p = post_id) (blog_posts a) = Some post"
    by (cases "find (\<lambda>p. p_id p = post_id) (blog_posts a)")
      (auto simp: edit_post_view_unfold split: if_splits)
  then have mem: "post \<in> set (blog_posts a)" and pid: "p_id post = post_id"
    using find_in_set[of "\<lambda>p. p_id p = post_id" "blog_posts a" post] by simp_all
  from view post obtain f where f: "form = Some f"
    by (cases form) (auto simp: edit_post_view_unfold Let_def split: option.splits)
  let ?upd = "\<lambda>q. if p_id q = post_id
                    then q\<lparr>p_title := pf_title f, p_subtitle := pf_subtitle f,
                           p_img_url := pf_img_url f, p_body := pf_body f\<rparr>
                    else q"
  from view post f pid have ep: "ep = EP_show_post post_id"
    and a': "a' = commit (a\<lparr>blog_posts := map ?upd (blog_posts a)\<rparr>)"
    by (auto simp: edit_post_view_unfold Let_def split: option.splits if_splits)
  have frame: "map p_author_id (map ?upd (blog_posts a)) = map p_author_id (blog_posts a)"
    "map p_date (map ?upd (blog_posts a)) = map p_date (blog_posts a)"
    "map p_id (map ?upd (blog_posts a)) = map p_id (blog_posts a)"
    by simp_all
  have "form = Some f \<and> ep = EP_show_post post_id \<and>
        post_id \<in> set (map p_id (blog_posts a)) \<and>
        blog_posts a' = map ?upd (blog_posts a) \<and>
        map p_author_id (blog_posts a') = map p_author_id (blog_posts a) \<and>
        map p_date (blog_posts a') = map p_date (blog_posts a) \<and>
        map p_id (blog_posts a') = map p_id (blog_posts a) \<and>
        users a' = users a \<and> comments a' = comments a"
    using f ep mem pid frame by (auto simp: a' commit_def)
  then show "\<exists>f. form = Some f \<and> ep = EP_show_post post_id \<and>
        post_id \<in> set (map p_id (blog_posts a)) \<and>
        blog_posts a' =
          map (\<lambda>q. if p_id q = post_id
                    then q\<lparr>p_title := pf_title f, p_subtitle := pf_subtitle f,
                           p_img_url := pf_img_url f, p_body := pf_body f\<rparr>
                    else q) (blog_posts a) \<and>
        map p_author_id (blog_posts a') = map p_author_id (blog_posts a) \<and>
        map p_date (blog_posts a') = map p_date (blog_posts a) \<and>
        map p_id (blog_posts a') = map p_id (blog_posts a) \<and>
        users a' = users a \<and> comments a' = comments a"
    by blast
qed

theorem post_edit_frame_witness:
  "privileged app_hello \<and>
   fst (edit_post 1 (Some (hello_form\<lparr>pf_subtitle := ''Sub2''\<rparr>)) app_hello)
     = Redirect (EP_show_post 1) \<and>
   blog_posts (snd (edit_post 1 (Some (hello_form\<lparr>pf_subtitle := ''Sub2''\<rparr>)) app_hello)) =
     [\<lparr>p_id = 1, p_author_id = Some 1, p_title = ''Hello'', p_subtitle = ''Sub2'',
       p_date = ''November 04, 2026'', p_body = ''Body'', p_img_url = ''http://img''\<rparr>]"
proof -
  let ?f = "hello_form\<lparr>pf_subtitle := ''Sub2''\<rparr>"
  let ?alice = "\<lparr>u_id = 1, u_email = ''a@x.com'',
        u_password = ''pbkdf2:sha256:5$saltsalt$pbkdf2:sha256:5saltsaltpw'', u_name = ''Alice''\<rparr>"
  let ?hello = "\<lparr>p_id = 1, p_author_id = Some 1, p_title = ''Hello'', p_subtitle = ''Sub'',
        p_date = ''November 04, 2026'', p_body = ''Body'', p_img_url = ''http://img''\<rparr>"
  let ?a' = "snd (edit_post 1 (Some ?f) app_hello)"
  note edit = post_edit_frame[of 1 "Some ?f" app_hello "EP_show_post 1" ?a' ?hello 1 ?alice ?f]
  have p: "privileged app_hello"
    by (simp add: app_hello_eq privileged_def session_defs)
  have h: "find (\<lambda>p. p_id p = 1) (blog_posts app_hello) = Some ?hello"
    by (simp add: app_hello_eq)
  have au: "p_author_id ?hello = Some 1" "load_user app_hello 1 = Some ?alice"
    by (simp_all add: app_hello_eq load_user_def)
  have t: "\<forall>q \<in> set (blog_posts app_hello). p_id q = 1 \<or> p_title q \<noteq> pf_title ?f"
    by (simp add: app_hello_eq)
  from edit p h au t
  have r: "fst (edit_post 1 (Some ?f) app_hello) = Redirect (EP_show_post 1)"
    by blast
  then have "edit_post 1 (Some ?f) app_hello = (Redirect (EP_show_post 1), ?a')"
    by (metis prod.collapse)
  with edit
  have "blog_posts ?a' =
          map (\<lambda>q. if p_id q = 1
                    then q\<lparr>p_title := pf_title ?f, p_subtitle := pf_subtitle ?f,
                           p_img_url := pf_img_url ?f, p_body := pf_body ?f\<rparr>
                    else q) (blog_posts app_hello)"
    by auto
  then have "blog_posts ?a' =
     [\<lparr>p_id = 1, p_author_id = Some 1, p_title = ''Hello'', p_subtitle = ''Sub2'',
       p_date = ''November 04, 2026'', p_body = ''Body'', p_img_url = ''http://img''\<rparr>]"
    by (simp add: app_hello_eq hello_form_def)
  with p r show ?thesis by simp
qed

section \<open>Commits per request\<close>

lemma commits_get_all_posts: "commits (snd (get_all_posts a)) = commits a"
  by (simp add: get_all_posts_def)

lemma commits_register:
  "commits (snd (register H form salt a)) \<in> {commits a, Suc (commits a)}"
  by (simp add: register_def Let_def login_user_def commit_def flash_def split: option.splits)

lemma commits_login: "commits (snd (login H form a)) = commits a"
  by (simp add: login_def login_user_def flash_def split: option.splits)

lemma commits_logout: "commits (snd (logout a)) = commits a"
  by (simp add: logout_def logout_user_def)

lemma commits_show_post:
  "commits (snd (show_post post_id form a)) \<in> {commits a, Suc (commits a)}"
  by (simp add: show_post_unfold Let_def commit_def flash_def split: option.splits)

lemma commits_about: "commits (snd (about a)) = commits a"
  by (simp add: about_def)

lemma commits_contact: "commits (snd (contact a)) = commits a"
  by (simp add: contact_def)

lemma commits_admin_only:
  "commits (snd (function a)) \<in> {commits a, Suc (commits a)} \<Longrightarrow>
   commits (snd (admin_only function a)) \<in> {commits a, Suc (commits a)}"
  by (simp add: admin_only_def)

lemma commits_add_new_post:
  "commits (snd (add_new_post form today a)) \<in> {commits a, Suc (commits a)}"
  unfolding add_new_post_def
  by (rule commits_admin_only)
    (simp add: add_new_post_view_def Let_def commit_def split: option.splits)

lemma commits_edit_post:
  "commits (snd (edit_post post_id form a)) \<in> {commits a, Suc (commits a)}"
  unfolding edit_post_def
  by (rule commits_admin_only)
    (simp add: edit_post_view_unfold Let_def commit_def split: option.splits)

lemma commits_delete_post:
  "commits (snd (delete_post post_id a)) \<in> {commits a, Suc (commits a)}"
  unfolding delete_post_def
  by (rule commits_admin_only)
    (simp add: delete_post_view_unfold commit_def split: option.splits)

lemma commits_dispatch:
  "commits (snd (dispatch H req a)) \<in> {commits a, Suc (commits a)}"
proof (cases req)
  case Req_get_all_posts
  then show ?thesis by (simp add: dispatch_def commits_get_all_posts)
next
  case (Req_register form salt)
  then show ?thesis using commits_register[of H form salt a] by (simp add: dispatch_def)
next
  case (Req_login form)
  then show ?thesis by (simp add: dispatch_def commits_login)
next
  case Req_logout
  then show ?thesis by (simp add: dispatch_def commits_logout)
next
  case (Req_show_post post_id form)
  then show ?thesis using commits_show_post[of post_id form a] by (simp add: dispatch_def)
next
  case Req_about
  then show ?thesis by (simp add: dispatch_def commits_about)
next
  case Req_contact
  then show ?thesis by (simp add: dispatch_def commits_contact)
next
  case (Req_add_new_post form today)
  then show ?thesis using commits_add_new_post[of form today a] by (simp add: dispatch_def)
next
  case (Req_edit_post post_id form)
  then show ?thesis using commits_edit_post[of post_id form a] by (simp add: dispatch_def)
next
  case (Req_delete_post post_id)
  then show ?thesis using commits_delete_post[of post_id a] by (simp add: dispatch_def)
qed

lemma srv_commits_serve:
  "srv_commits (snd (serve H c req srv)) = commits (snd (dispatch H req (request_context srv c)))"
  by (simp add: serve_def split: prod.splits)

text \<open>
  C9. Serving one request, whatever the route, the client and the state, calls the
  store's commit not at all or once: the count of commits after the request is the count
  before it or one more.
\<close>

theorem at_most_one_commit_per_request:
  "srv_commits (snd (serve H c req srv)) = srv_commits srv \<or>
   srv_commits (snd (serve H c req srv)) = Suc (srv_commits srv)"
  using commits_dispatch[of H req "request_context srv c"]
  by (simp add: srv_commits_serve request_context_def)

theorem at_most_one_commit_per_request_witness:
  "srv_commits (snd (serve example_digest 0 (Req_register (Some alice_form) ''saltsalt'')
      init_server)) = 1 \<and>
   srv_commits (snd (serve example_digest 0 Req_get_all_posts init_server)) = 0"
proof -
  have 1: "srv_commits (snd (serve example_digest 0 (Req_register (Some alice_form) ''saltsalt'')
      init_server)) \<noteq> 0"
    by (simp add: serve_def dispatch_def request_context_def init_server_def register_def
        session_defs Let_def)
  have 2: "srv_commits (snd (serve example_digest 0 Req_get_all_posts init_server)) \<noteq> 1"
    by (simp add: serve_def dispatch_def request_context_def init_server_def get_all_posts_def)
  have 0: "srv_commits init_server = 0"
    by (simp add: init_server_def)
  from 0 1 2
    at_most_one_commit_per_request[of example_digest 0
      "Req_register (Some alice_form) ''saltsalt''" init_server]
    at_most_one_commit_per_request[of example_digest 0 Req_get_all_posts init_server]
  show ?thesis by simp
qed

section \<open>The invariant of the store\<close>

lemma inv_add_user:
  assumes "store_invariant us ps cs" "u_id v \<notin> set (map u_id us)"
    "u_email v \<notin> set (map u_email us)"
  shows "store_invariant (us @ [v]) ps cs"
  using assms unfolding store_invariant_def by auto

lemma inv_add_comment:
  assumes "store_invariant us ps cs" "u \<in> set us" "p \<in> set ps"
    "c_author_id c = Some (u_id u)" "c_post_id c = Some (p_id p)"
  shows "store_invariant us ps (cs @ [c])"
  using assms unfolding store_invariant_def by auto

lemma inv_add_post:
  assumes "store_invariant us ps cs" "u \<in> set us" "p_author_id q = Some (u_id u)"
    "p_id q \<notin> set (map p_id ps)" "p_title q \<notin> set (map p_title ps)"
  shows "store_invariant us (ps @ [q]) cs"
  using assms unfolding store_invariant_def by auto

lemma distinct_titles_edit:
  assumes ids: "distinct (map p_id ps)" and titles: "distinct (map p_title ps)"
    and free: "\<forall>q \<in> set ps. p_id q = i \<or> p_title q \<noteq> t"
  shows "distinct (map p_title (map (\<lambda>q. if p_id q = i then q\<lparr>p_title := t, p_subtitle := s,
           p_img_url := g, p_body := b\<rparr> else q) ps))"
  using assms
proof (induction ps)
  case Nil
  then show ?case by simp
next
  case (Cons x xs)
  let ?e = "\<lambda>q. if p_id q = i then q\<lparr>p_title := t, p_subtitle := s,
           p_img_url := g, p_body := b\<rparr> else q"
  from Cons have IH: "distinct (map p_title (map ?e xs))" by simp
  have "p_title (?e x) \<notin> set (map p_title (map ?e xs))"
  proof
    assume "p_title (?e x) \<in> set (map p_title (map ?e xs))"
    then obtain y where y: "y \<in> set xs" "p_title (?e y) = p_title (?e x)" by auto
    from y(1) have yi: "p_id y \<in> set (map p_id xs)" and yt: "p_title y \<in> set (map p_title xs)"
      by simp_all
    from Cons.prems(1) have "p_id x \<notin> set (map p_id xs)" by simp
    with yi have ne: "p_id y \<noteq> p_id x" by metis
    from Cons.prems(2) have "p_title x \<notin> set (map p_title xs)" by simp
    with yt have nt: "p_title y \<noteq> p_title x" by metis
    from Cons.prems(3) y(1) have fy: "p_id y = i \<or> p_title y \<noteq> t" by simp
    from Cons.prems(3) have fx: "p_id x = i \<or> p_title x \<noteq> t" by simp
    from y(2) ne nt fy fx show False by (auto split: if_splits)
  qed
  with IH show ?case by simp
qed

lemma inv_edit_post:
  assumes "store_invariant us ps cs" "\<not> (\<exists>q \<in> set ps. p_id q \<noteq> i \<and> p_title q = t)"
  shows "store_invariant us (map (\<lambda>q. if p_id q = i then q\<lparr>p_title := t, p_subtitle := s,
           p_img_url := g, p_body := b\<rparr> else q) ps) cs"
proof -
  let ?e = "\<lambda>q. if p_id q = i then q\<lparr>p_title := t, p_subtitle := s,
           p_img_url := g, p_body := b\<rparr> else q"
  have ids: "map p_id (map ?e ps) = map p_id ps" by simp
  have aus: "map p_author_id (map ?e ps) = map p_author_id ps" by simp
  have img: "p_id ` set (map ?e ps) = p_id ` set ps"
    using ids by (metis set_map)
  have au: "\<forall>p \<in> set (map ?e ps). p_author_id p \<in> Some ` u_id ` set us"
    using assms(1) unfolding store_invariant_def by auto
  have ti: "distinct (map p_title (map ?e ps))"
    using assms unfolding store_invariant_def
    by (intro distinct_titles_edit) auto
  show ?thesis
    using assms(1) au ti unfolding store_invariant_def img ids by simp
qed

lemma inv_delete_post:
  assumes "store_invariant us ps cs"
  shows "store_invariant us (filter (\<lambda>q. p_id q \<noteq> i) ps)
           (map (\<lambda>c. if c_post_id c = Some i then c\<lparr>c_post_id := None\<rparr> else c) cs)"
  using assms unfolding store_invariant_def
  by (auto simp: distinct_map_filter)

section \<open>The handlers keep the invariant\<close>

lemma current_user_in_users: "current_user a = Some u \<Longrightarrow> u \<in> set (users a)"
  by (auto simp: current_user_def load_user_def split: option.splits dest: find_in_set)

lemma inv_register:
  assumes "store_invariant (users a) (blog_posts a) (comments a)"
    and "register H form salt a = (r, a')"
  shows "store_invariant (users a') (blog_posts a') (comments a')"
proof (cases form)
  case None
  with assms show ?thesis by (simp add: register_def)
next
  case (Some f)
  show ?thesis
  proof (cases "find (\<lambda>u. u_email u = rf_email f) (users a)")
    case (Some user)
    with assms \<open>form = Some f\<close> show ?thesis
      by (auto simp: register_def flash_def)
  next
    case None
    define v where "v = \<lparr>u_id = next_id (map u_id (users a)), u_email = rf_email f,
        u_password = generate_password_hash H (rf_password f) ''pbkdf2:sha256:5'' salt,
        u_name = rf_name f\<rparr>"
    from None assms(2) \<open>form = Some f\<close>
    have a': "a' = login_user v (commit (a\<lparr>users := users a @ [v]\<rparr>))"
      by (auto simp: register_def Let_def v_def)
    have 1: "u_id v \<notin> set (map u_id (users a))"
      using next_id_fresh[of "map u_id (users a)"] by (simp add: v_def)
    from None have "\<forall>x \<in> set (users a). u_email x \<noteq> rf_email f"
      by (simp add: find_None_iff)
    then have 2: "u_email v \<notin> set (map u_email (users a))"
      by (auto simp: v_def)
    from inv_add_user[OF assms(1) 1 2] show ?thesis
      by (simp add: a' login_user_def commit_def)
  qed
qed

lemma inv_show_post:
  assumes "store_invariant (users a) (blog_posts a) (comments a)"
    and "show_post post_id form a = (r, a')"
  shows "store_invariant (users a') (blog_posts a') (comments a')"
proof (cases form)
  case None
  with assms show ?thesis by (auto simp: show_post_unfold Let_def split: if_splits)
next
  case (Some content)
  show ?thesis
  proof (cases "current_user a")
    case None
    with assms Some show ?thesis
      by (auto simp: show_post_unfold Let_def flash_def split: if_splits)
  next
    case u: (Some u)
    show ?thesis
    proof (cases "find (\<lambda>p. p_id p = post_id) (blog_posts a)")
      case None
      with assms Some u show ?thesis
        by (auto simp: show_post_unfold Let_def split: if_splits)
    next
      case p: (Some p)
      define c where "c = \<lparr>c_id = next_id (map c_id (comments a)),
          c_author_id = Some (u_id u), c_post_id = Some (p_id p), c_text = content\<rparr>"
      from assms(2) Some u p have a': "a' = commit (a\<lparr>comments := comments a @ [c]\<rparr>)"
        by (auto simp: show_post_unfold Let_def c_def)
      have 1: "u \<in> set (users a)" using u by (rule current_user_in_users)
      have 2: "p \<in> set (blog_posts a)" using p by (simp add: find_in_set)
      have 3: "c_author_id c = Some (u_id u)" by (simp add: c_def)
      have 4: "c_post_id c = Some (p_id p)" by (simp add: c_def)
      from inv_add_comment[OF assms(1) 1 2 3 4]
      have "store_invariant (users a) (blog_posts a) (comments a @ [c])" .
      then show ?thesis by (simp add: a' commit_def)
    qed
  qed
qed

lemma admin_only_cases:
  "admin_only function a = (r, a') \<Longrightarrow> (function a = (r, a') \<and> is_authenticated a) \<or> a' = a"
  by (auto simp: admin_only_def split: if_splits)

lemma inv_add_new_post_view:
  assumes "store_invariant (users a) (blog_posts a) (comments a)"
    and "is_authenticated a"
    and "add_new_post_view form today a = (r, a')"
  shows "store_invariant (users a') (blog_posts a') (comments a')"
proof (cases form)
  case None
  with assms show ?thesis by (auto simp: add_new_post_view_def Let_def)
next
  case (Some f)
  from assms(2) obtain u where u: "current_user a = Some u"
    by (auto simp: is_authenticated_def)
  show ?thesis
  proof (cases "pf_title f \<in> set (map p_title (blog_posts a))")
    case True
    with assms Some show ?thesis
      by (auto simp: add_new_post_view_def Let_def commit_def)
  next
    case False
    define q where "q = \<lparr>p_id = next_id (map p_id (blog_posts a)),
        p_author_id = Some (u_id u), p_title = pf_title f, p_subtitle = pf_subtitle f,
        p_date = strftime_B_d_Y today, p_body = pf_body f, p_img_url = pf_img_url f\<rparr>"
    from assms(3) Some u False
    have a': "a' = commit (a\<lparr>blog_posts := blog_posts a @ [q]\<rparr>)"
      by (auto simp: add_new_post_view_def Let_def q_def)
    have 1: "u \<in> set (users a)" using u by (rule current_user_in_users)
    have 2: "p_author_id q = Some (u_id u)" by (simp add: q_def)
    have 3: "p_id q \<notin> set (map p_id (blog_posts a))"
      using next_id_fresh[of "map p_id (blog_posts a)"] by (simp add: q_def)
    have 4: "p_title q \<notin> set (map p_title (blog_posts a))"
      using False by (simp add: q_def)
    from inv_add_post[OF assms(1) 1 2 3 4] show ?thesis
      by (simp add: a' commit_def)
  qed
qed

lemma inv_edit_post_view:
  assumes "store_invariant (users a) (blog_posts a) (comments a)"
    and "edit_post_view post_id form a = (r, a')"
  shows "store_invariant (users a') (blog_posts a') (comments a')"
proof (cases "\<exists>f. form = Some f \<and> r = Redirect (EP_show_post post_id)")
  case False
  have "a' = a \<or> a' = commit a"
    using assms(2) False
    by (auto simp: edit_post_view_unfold Let_def split: option.splits if_splits
        dest: find_in_set)
  with assms(1) show ?thesis by (auto simp: commit_def)
next
  case True
  then obtain f where f: "form = Some f" by blast
  have "blog_posts a' = map (\<lambda>q. if p_id q = post_id
           then q\<lparr>p_title := pf_title f, p_subtitle := pf_subtitle f,
                  p_img_url := pf_img_url f, p_body := pf_body f\<rparr> else q) (blog_posts a)
        \<and> \<not> (\<exists>q \<in> set (blog_posts a). p_id q \<noteq> post_id \<and> p_title q = pf_title f)
        \<and> users a' = users a \<and> comments a' = comments a"
    using assms(2) True f
    by (auto simp: edit_post_view_unfold Let_def commit_def split: option.splits if_splits)
  with inv_edit_post[OF assms(1), where i = post_id and t = "pf_title f" and s = "pf_subtitle f"
      and g = "pf_img_url f" and b = "pf_body f"]
  show ?thesis by simp
qed

lemma inv_delete_post_view:
  assumes "store_invariant (users a) (blog_posts a) (comments a)"
    and "delete_post_view post_id a = (r, a')"
  shows "store_invariant (users a') (blog_posts a') (comments a')"
proof (cases "find (\<lambda>p. p_id p = post_id) (blog_posts a)")
  case None
  with assms show ?thesis by (auto simp: delete_post_view_unfold split: if_splits)
next
  case (Some p)
  with assms(2) have "a' = commit (a\<lparr>blog_posts := filter (\<lambda>q. p_id q \<noteq> post_id) (blog_posts a),
      comments := map (\<lambda>c. if c_post_id c = Some post_id then c\<lparr>c_post_id := None\<rparr> else c)
                    (comments a)\<rparr>)"
    by (auto simp: delete_post_view_unfold)
  with inv_delete_post[OF assms(1), of post_id] show ?thesis
    by (simp add: commit_def)
qed

lemma inv_dispatch:
  assumes "store_invariant (users a) (blog_posts a) (comments a)"
    and "dispatch H req a = (r, a')"
  shows "store_invariant (users a') (blog_posts a') (comments a')"
proof (cases req)
  case Req_get_all_posts
  with assms show ?thesis by (auto simp: dispatch_def get_all_posts_def)
next
  case (Req_register form salt)
  with assms show ?thesis by (auto simp: dispatch_def intro: inv_register)
next
  case (Req_login form)
  with assms show ?thesis
    by (auto simp: dispatch_def login_def login_user_def flash_def
        split: option.splits if_splits)
next
  case Req_logout
  with assms show ?thesis
    by (auto simp: dispatch_def logout_def logout_user_def split: if_splits)
next
  case (Req_show_post post_id form)
  with assms show ?thesis by (auto simp: dispatch_def intro: inv_show_post)
next
  case Req_about
  with assms show ?thesis by (auto simp: dispatch_def about_def)
next
  case Req_contact
  with assms show ?thesis by (auto simp: dispatch_def contact_def)
next
  case (Req_add_new_post form today)
  with assms(2) have "admin_only (add_new_post_view form today) a = (r, a')"
    by (simp add: dispatch_def add_new_post_def)
  then have "(add_new_post_view form today a = (r, a') \<and> is_authenticated a) \<or> a' = a"
    by (rule admin_only_cases)
  with assms(1) show ?thesis
    by (auto intro: inv_add_new_post_view) 
next
  case (Req_edit_post post_id form)
  with assms(2) have "admin_only (edit_post_view post_id form) a = (r, a')"
    by (simp add: dispatch_def edit_post_def)
  then have "(edit_post_view post_id form a = (r, a') \<and> is_authenticated a) \<or> a' = a"
    by (rule admin_only_cases)
  with assms(1) show ?thesis
    by (auto intro: inv_edit_post_view)
next
  case (Req_delete_post post_id)
  with assms(2) have "admin_only (delete_post_view post_id) a = (r, a')"
    by (simp add: dispatch_def delete_post_def)
  then have "(delete_post_view post_id a = (r, a') \<and> is_authenticated a) \<or> a' = a"
    by (rule admin_only_cases)
  with assms(1) show ?thesis
    by (auto intro: inv_delete_post_view)
qed

lemma inv_serve:
  assumes "store_invariant (srv_users srv) (srv_blog_posts srv) (srv_comments srv)"
  shows "store_invariant (srv_users (snd (serve H c req srv)))
           (srv_blog_posts (snd (serve H c req srv))) (srv_comments (snd (serve H c req srv)))"
proof -
  obtain r a' where d: "dispatch H req (request_context srv c) = (r, a')"
    by (cases "dispatch H req (request_context srv c)")
  from assms have "store_invariant (users (request_context srv c))
      (blog_posts (request_context srv c)) (comments (request_context srv c))"
    by (simp add: request_context_def)
  from inv_dispatch[OF this d] show ?thesis
    by (simp add: serve_def d)
qed

lemma reachable_run: "reachable H srv \<Longrightarrow> reachable H (run H tr srv)"
proof (induction tr arbitrary: srv)
  case Nil
  then show ?case by simp
next
  case (Cons x tr)
  obtain c req where x: "x = (c, req)" by (cases x)
  from Cons.prems have "reachable H (snd (serve H c req srv))" by (rule reachable.step)
  then show ?case unfolding x by (simp add: Cons.IH)
qed

lemma reachable_store_invariant:
  "reachable H srv \<Longrightarrow> store_invariant (srv_users srv) (srv_blog_posts srv) (srv_comments srv)"
proof (induction rule: reachable.induct)
  case start
  show ?case by (simp add: init_server_def store_invariant_def)
next
  case (step srv c req)
  then show ?case by (intro inv_serve)
qed

lemma serve_delete_post:
  assumes "fst (serve H c (Req_delete_post post_id) srv) = Redirect EP_get_all_posts"
  shows "srv_users (snd (serve H c (Req_delete_post post_id) srv)) = srv_users srv"
    and "srv_blog_posts (snd (serve H c (Req_delete_post post_id) srv)) =
          filter (\<lambda>q. p_id q \<noteq> post_id) (srv_blog_posts srv)"
    and "srv_comments (snd (serve H c (Req_delete_post post_id) srv)) =
          map (\<lambda>x. if c_post_id x = Some post_id then x\<lparr>c_post_id := None\<rparr> else x)
            (srv_comments srv)"
  using assms
  by (auto simp: serve_def dispatch_def delete_post_def admin_only_def delete_post_view_unfold
      request_context_def commit_def split: if_splits option.splits)

lemma serve_delete_post_succeeds:
  assumes "privileged (request_context srv c)"
    and "post_id \<in> set (map p_id (srv_blog_posts srv))"
  shows "fst (serve H c (Req_delete_post post_id) srv) = Redirect EP_get_all_posts"
proof -
  from assms(2) have "find (\<lambda>p. p_id p = post_id) (blog_posts (request_context srv c)) \<noteq> None"
    by (auto simp: find_None_iff request_context_def)
  then obtain p where "find (\<lambda>p. p_id p = post_id) (blog_posts (request_context srv c)) = Some p"
    by blast
  with assms(1) have "fst (delete_post post_id (request_context srv c)) = Redirect EP_get_all_posts"
    by (simp add: delete_post_def admin_only_def privileged_def delete_post_view_unfold)
  moreover have "fst (serve H c (Req_delete_post post_id) srv) =
      fst (delete_post post_id (request_context srv c))"
    by (simp add: serve_def dispatch_def split: prod.splits)
  ultimately show ?thesis by simp
qed

text \<open>
  C8, as the code has it. In every state reachable from the empty store by requests of
  any clients, every comment refers to an existing user and either to no post (NULL) or
  to an existing post, every post refers to an existing user, and user identifiers, post
  identifiers, emails and titles are distinct, so each reference names exactly one row.
  Deleting a post in such a state (which the privileged session can do for every post of
  the table) removes the rows of the post table with that id and nothing else: the users
  are untouched and every comment stays in the store, those of the deleted post with a
  NULL parent and the others unchanged; the invariant holds again afterwards.
\<close>

theorem store_invariant_reachable:
  "reachable H srv \<Longrightarrow>
     store_invariant (srv_users srv) (srv_blog_posts srv) (srv_comments srv) \<and>
     (fst (serve H c (Req_delete_post post_id) srv) = Redirect EP_get_all_posts \<longrightarrow>
        srv_users (snd (serve H c (Req_delete_post post_id) srv)) = srv_users srv \<and>
        srv_blog_posts (snd (serve H c (Req_delete_post post_id) srv)) =
          filter (\<lambda>q. p_id q \<noteq> post_id) (srv_blog_posts srv) \<and>
        srv_comments (snd (serve H c (Req_delete_post post_id) srv)) =
          map (\<lambda>x. if c_post_id x = Some post_id then x\<lparr>c_post_id := None\<rparr> else x)
            (srv_comments srv) \<and>
        store_invariant (srv_users (snd (serve H c (Req_delete_post post_id) srv)))
          (srv_blog_posts (snd (serve H c (Req_delete_post post_id) srv)))
          (srv_comments (snd (serve H c (Req_delete_post post_id) srv)))) \<and>
     (privileged (request_context srv c) \<and> post_id \<in> set (map p_id (srv_blog_posts srv)) \<longrightarrow>
        fst (serve H c (Req_delete_post post_id) srv) = Redirect EP_get_all_posts)"
proof (intro conjI impI)
  assume r: "reachable H srv"
  then show inv: "store_invariant (srv_users srv) (srv_blog_posts srv) (srv_comments srv)"
    by (rule reachable_store_invariant)
  show "store_invariant (srv_users (snd (serve H c (Req_delete_post post_id) srv)))
          (srv_blog_posts (snd (serve H c (Req_delete_post post_id) srv)))
          (srv_comments (snd (serve H c (Req_delete_post post_id) srv)))"
    using inv by (rule inv_serve)
next
  assume "fst (serve H c (Req_delete_post post_id) srv) = Redirect EP_get_all_posts"
  then show "srv_users (snd (serve H c (Req_delete_post post_id) srv)) = srv_users srv"
    and "srv_blog_posts (snd (serve H c (Req_delete_post post_id) srv)) =
          filter (\<lambda>q. p_id q \<noteq> post_id) (srv_blog_posts srv)"
    and "srv_comments (snd (serve H c (Req_delete_post post_id) srv)) =
          map (\<lambda>x. if c_post_id x = Some post_id then x\<lparr>c_post_id := None\<rparr> else x)
            (srv_comments srv)"
    by (rule serve_delete_post)+
next
  assume "privileged (request_context srv c) \<and> post_id \<in> set (map p_id (srv_blog_posts srv))"
  then show "fst (serve H c (Req_delete_post post_id) srv) = Redirect EP_get_all_posts"
    by (intro serve_delete_post_succeeds) simp_all
qed

lemma delete_trace_before:
  "srv_users (run example_digest (butlast delete_trace) init_server) =
     [\<lparr>u_id = 1, u_email = ''a@x.com'',
       u_password = ''pbkdf2:sha256:5$saltsalt$pbkdf2:sha256:5saltsaltpw'', u_name = ''Alice''\<rparr>]"
  "srv_blog_posts (run example_digest (butlast delete_trace) init_server) =
     [\<lparr>p_id = 1, p_author_id = Some 1, p_title = ''Hello'', p_subtitle = ''Sub'',
       p_date = ''November 04, 2026'', p_body = ''Body'', p_img_url = ''http://img''\<rparr>]"
  "srv_comments (run example_digest (butlast delete_trace) init_server) =
     [\<lparr>c_id = 1, c_author_id = Some 1, c_post_id = Some 1, c_text = ''Nice!''\<rparr>]"
  "srv_sessions (run example_digest (butlast delete_trace) init_server) 0 = (Some 1, [])"
  by (simp_all add: delete_trace_def init_server_def serve_def dispatch_def request_context_def
      register_def add_new_post_def add_new_post_view_def admin_only_def show_post_unfold
      example_defs session_defs strftime_B_d_Y_def month_name_def digit_def Let_def)

lemma delete_trace_after:
  "srv_users (run example_digest delete_trace init_server) =
     [\<lparr>u_id = 1, u_email = ''a@x.com'',
       u_password = ''pbkdf2:sha256:5$saltsalt$pbkdf2:sha256:5saltsaltpw'', u_name = ''Alice''\<rparr>]"
  "srv_blog_posts (run example_digest delete_trace init_server) = []"
  "srv_comments (run example_digest delete_trace init_server) =
     [\<lparr>c_id = 1, c_author_id = Some 1, c_post_id = None, c_text = ''Nice!''\<rparr>]"
  by (simp_all add: delete_trace_def init_server_def serve_def dispatch_def request_context_def
      register_def add_new_post_def add_new_post_view_def admin_only_def show_post_unfold
      delete_post_def delete_post_view_unfold
      example_defs session_defs strftime_B_d_Y_def month_name_def digit_def Let_def)

theorem store_invariant_reachable_witness:
  "reachable example_digest (run example_digest (butlast delete_trace) init_server) \<and>
   privileged (request_context (run example_digest (butlast delete_trace) init_server) 0) \<and>
   srv_comments (run example_digest (butlast delete_trace) init_server) =
     [\<lparr>c_id = 1, c_author_id = Some 1, c_post_id = Some 1, c_text = ''Nice!''\<rparr>] \<and>
   fst (serve example_digest 0 (Req_delete_post 1)
         (run example_digest (butlast delete_trace) init_server)) = Redirect EP_get_all_posts \<and>
   srv_blog_posts (snd (serve example_digest 0 (Req_delete_post 1)
         (run example_digest (butlast delete_trace) init_server))) = [] \<and>
   srv_comments (snd (serve example_digest 0 (Req_delete_post 1)
         (run example_digest (butlast delete_trace) init_server))) =
     [\<lparr>c_id = 1, c_author_id = Some 1, c_post_id = None, c_text = ''Nice!''\<rparr>] \<and>
   store_invariant
     (srv_users (snd (serve example_digest 0 (Req_delete_post 1)
         (run example_digest (butlast delete_trace) init_server))))
     (srv_blog_posts (snd (serve example_digest 0 (Req_delete_post 1)
         (run example_digest (butlast delete_trace) init_server))))
     (srv_comments (snd (serve example_digest 0 (Req_delete_post 1)
         (run example_digest (butlast delete_trace) init_server))))"
proof -
  let ?s = "run example_digest (butlast delete_trace) init_server"
  let ?t = "snd (serve example_digest 0 (Req_delete_post 1) ?s)"
  have r: "reachable example_digest ?s"
    by (rule reachable_run) (rule reachable.start)
  note del = store_invariant_reachable[OF r, of 0 1]
  have p: "privileged (request_context ?s 0)"
    by (simp add: privileged_def request_context_def delete_trace_before session_defs)
  have m: "1 \<in> set (map p_id (srv_blog_posts ?s))"
    by (simp add: delete_trace_before)
  from del p m have ok: "fst (serve example_digest 0 (Req_delete_post 1) ?s)
      = Redirect EP_get_all_posts"
    by blast
  with del have posts: "srv_blog_posts ?t = filter (\<lambda>q. p_id q \<noteq> 1) (srv_blog_posts ?s)"
    and comments: "srv_comments ?t =
      map (\<lambda>x. if c_post_id x = Some 1 then x\<lparr>c_post_id := None\<rparr> else x) (srv_comments ?s)"
    and inv: "store_invariant (srv_users ?t) (srv_blog_posts ?t) (srv_comments ?t)"
    by blast+
  from posts have 1: "srv_blog_posts ?t = []"
    by (simp add: delete_trace_before)
  from comments have 2: "srv_comments ?t =
      [\<lparr>c_id = 1, c_author_id = Some 1, c_post_id = None, c_text = ''Nice!''\<rparr>]"
    by (simp add: delete_trace_before)
  from r p ok 1 2 inv delete_trace_before(3) show ?thesis
    by (intro conjI)
qed

text \<open>
  C8, as the specification words it, fails: one client registers, publishes a post,
  comments on it and deletes the post. Before the deletion the invariant of the
  specification holds; after it the store is reachable and holds a comment whose parent
  is no post of the table.
\<close>

theorem referential_invariant_counterexample:
  "referential_invariant
     (srv_users (run example_digest (butlast delete_trace) init_server))
     (srv_blog_posts (run example_digest (butlast delete_trace) init_server))
     (srv_comments (run example_digest (butlast delete_trace) init_server)) \<and>
   reachable example_digest (run example_digest delete_trace init_server) \<and>
   \<not> referential_invariant
     (srv_users (run example_digest delete_trace init_server))
     (srv_blog_posts (run example_digest delete_trace init_server))
     (srv_comments (run example_digest delete_trace init_server))"
proof -
  have r: "reachable example_digest (run example_digest delete_trace init_server)"
    by (rule reachable_run) (rule reachable.start)
  have b: "referential_invariant
     (srv_users (run example_digest (butlast delete_trace) init_server))
     (srv_blog_posts (run example_digest (butlast delete_trace) init_server))
     (srv_comments (run example_digest (butlast delete_trace) init_server))"
    unfolding delete_trace_before by (simp add: referential_invariant_def)
  have a: "\<not> referential_invariant
     (srv_users (run example_digest delete_trace init_server))
     (srv_blog_posts (run example_digest delete_trace init_server))
     (srv_comments (run example_digest delete_trace init_server))"
    unfolding delete_trace_after by (simp add: referential_invariant_def)
  from b r a show ?thesis by simp
qed

end
